theory Spec2Isabelle
  imports Main
begin

section \<open>JavaScript values, regions and documents\<close>

text \<open>
  The viewer page (\<^verbatim>\<open>src/pages/ViewerPage.js\<close>, the second half of
  \<^verbatim>\<open>src/frontend/src/pages/UploadPage.js\<close>) keeps a document of pages and sections,
  a registry of editable DOM elements and a table of edited flags. The field values the
  code tests with \<^verbatim>\<open>!v\<close> and \<^verbatim>\<open>v || ""\<close> are strings that may be missing
  (\<^verbatim>\<open>undefined\<close>) or \<^verbatim>\<open>null\<close>.
\<close>

datatype jsval = Undefined | Null | Str string

text \<open>\<^verbatim>\<open>!!v\<close>: of the values modelled, only a non-empty string is truthy.\<close>

fun truthy :: "jsval \<Rightarrow> bool" where
  "truthy (Str s) = (s \<noteq> [])"
| "truthy Undefined = False"
| "truthy Null = False"

text \<open>\<^verbatim>\<open>v || ""\<close>, for a string-valued field.\<close>

fun or_empty :: "jsval \<Rightarrow> string" where
  "or_empty (Str s) = s"
| "or_empty Undefined = []"
| "or_empty Null = []"

text \<open>A value inside a template literal.\<close>

fun template :: "jsval \<Rightarrow> string" where
  "template (Str s) = s"
| "template Undefined = ''undefined''"
| "template Null = ''null''"

datatype mode = Page | Section

fun mode_name :: "mode \<Rightarrow> string" where
  "mode_name Page = ''page''"
| "mode_name Section = ''section''"

record region =
  name :: jsval
  content :: jsval
  type :: jsval
  layout :: jsval

text \<open>
  An entry of a JavaScript array of regions: a hole of a sparse array (left behind by an
  assignment past the end), a \<^verbatim>\<open>null\<close> or \<^verbatim>\<open>undefined\<close> entry, or a region
  object. \<^verbatim>\<open>forEach\<close> and \<^verbatim>\<open>map\<close> skip holes; spreading, indexing and
  \<^verbatim>\<open>findIndex\<close> read a hole as \<^verbatim>\<open>undefined\<close>.
\<close>

datatype slot = Hole | Nullish | Obj region

record document =
  title :: jsval
  raw_text :: jsval
  pages :: "slot list option"
  sections :: "slot list option"

text \<open>\<^verbatim>\<open>doc.pages || []\<close> and \<^verbatim>\<open>doc?.pages || []\<close>.\<close>

fun or_nil :: "slot list option \<Rightarrow> slot list" where
  "or_nil None = []"
| "or_nil (Some xs) = xs"

fun pages_of :: "document option \<Rightarrow> slot list" where
  "pages_of None = []"
| "pages_of (Some d) = or_nil (pages d)"

fun sections_of :: "document option \<Rightarrow> slot list" where
  "sections_of None = []"
| "sections_of (Some d) = or_nil (sections d)"

text \<open>\<^verbatim>\<open>{ ...obj }\<close>: spreading \<^verbatim>\<open>null\<close> or \<^verbatim>\<open>undefined\<close> gives the empty object.\<close>

definition empty_object :: region where
  "empty_object = \<lparr>name = Undefined, content = Undefined, type = Undefined, layout = Undefined\<rparr>"

fun spread :: "slot \<Rightarrow> region" where
  "spread (Obj r) = r"
| "spread Nullish = empty_object"
| "spread Hole = empty_object"

text \<open>\<^verbatim>\<open>Array.prototype.map\<close> with a callback that returns an entry: holes stay holes.\<close>

fun js_map :: "(slot \<Rightarrow> slot) \<Rightarrow> slot list \<Rightarrow> slot list" where
  "js_map f [] = []"
| "js_map f (Hole # xs) = Hole # js_map f xs"
| "js_map f (x # xs) = f x # js_map f xs"

section \<open>The document normalizer\<close>

text \<open>
  \<^verbatim>\<open>
  const normalizeShape = (obj, mode) => {
    if (!obj) return obj;
    const o = { ...obj };
    if (!o.type && mode === "section") o.type = "text";
    if (!o.layout && mode === "page") o.layout = "text";
    return o;
  };
  \<close>
\<close>

fun normalizeShape :: "slot \<Rightarrow> mode \<Rightarrow> slot" where
  "normalizeShape (Obj obj) m =
     (let o1 = (if \<not> truthy (type obj) \<and> m = Section then obj\<lparr>type := Str ''text''\<rparr> else obj);
          o2 = (if \<not> truthy (layout o1) \<and> m = Page then o1\<lparr>layout := Str ''text''\<rparr> else o1)
      in Obj o2)"
| "normalizeShape Nullish m = Nullish"
| "normalizeShape Hole m = Hole"

text \<open>
  \<^verbatim>\<open>
  const normalizeDocument = (doc) => {
    if (!doc) return { pages: [], sections: [] };
    const copy = { ...doc };
    copy.pages = (doc.pages || []).map((p) => normalizeShape(p, "page"));
    copy.sections = (doc.sections || []).map((s) => normalizeShape(s, "section"));
    return copy;
  };
  \<close>
\<close>

fun normalizeDocument :: "document option \<Rightarrow> document" where
  "normalizeDocument None =
     \<lparr>title = Undefined, raw_text = Undefined, pages = Some [], sections = Some []\<rparr>"
| "normalizeDocument (Some doc) =
     doc\<lparr>pages := Some (js_map (\<lambda>p. normalizeShape p Page) (or_nil (pages doc))),
         sections := Some (js_map (\<lambda>s. normalizeShape s Section) (or_nil (sections doc)))\<rparr>"

section \<open>The viewer's state\<close>

text \<open>
  A region key is the string \<^verbatim>\<open>`${mode}${index}`\<close> (\<^verbatim>\<open>page0\<close>, \<^verbatim>\<open>section3\<close>);
  the pair of the mode and the index stands for it, since the two prefixes differ and a
  number has one decimal form.
\<close>

type_synonym refKey = "mode \<times> nat"

record snackbar =
  is_open :: bool
  message :: string
  severity :: string

datatype js_error = TypeError | SyntaxError

text \<open>
  A handler either returns or throws; in both cases the mutations it made to the refs and
  to the DOM before that point stay.
\<close>

datatype 's outcome = Returned 's | Threw js_error 's

fun state_of :: "'s outcome \<Rightarrow> 's" where
  "state_of (Returned s) = s"
| "state_of (Threw e s) = s"

fun and_then :: "'s outcome \<Rightarrow> ('s \<Rightarrow> 's outcome) \<Rightarrow> 's outcome" where
  "and_then (Returned s) f = f s"
| "and_then (Threw e s) f = Threw e s"

text \<open>
  The component's state. \<open>pageContentRefs\<close> maps a key to the \<^verbatim>\<open>innerHTML\<close> of the
  element registered under it (every editable region is a \<^verbatim>\<open>div\<close> of its own, so no
  two keys share an element); \<open>localEditedRef\<close> is the table of edited flags, a missing
  key reading \<^verbatim>\<open>undefined\<close>. \<open>previewUrl\<close> is \<open>None\<close> for the empty string and
  \<open>Some html\<close> for the object URL of a blob holding \<open>html\<close>. \<open>timers\<close> lists the
  documents of the pending \<^verbatim>\<open>setTimeout(() => populateEditorsFromDocument(doc), 50)\<close>
  calls, \<open>scrolledTo\<close> the region the last \<^verbatim>\<open>scrollTo\<close> aimed at, and
  \<open>regenerating\<close> counts the unsettled requests of \<^verbatim>\<open>handleRegenerateDocument\<close>.
\<close>

record viewer =
  route_id :: string
  documentData :: "document option"
  loading :: bool
  snack :: snackbar
  openPreview :: bool
  previewUrl :: "string option"
  anchorElDownload :: bool
  viewerScrollRef :: bool
  scrolledTo :: "refKey option"
  pageContentRefs :: "refKey \<Rightarrow> string option"
  localEditedRef :: "refKey \<Rightarrow> bool option"
  fontFamily :: string
  fontSize :: nat
  timers :: "document list"
  regenerating :: nat

text \<open>
  \<^verbatim>\<open>Array.prototype.forEach\<close>, with the index of the first entry: holes are skipped, and
  a callback that throws ends the loop.
\<close>

fun forEach :: "slot list \<Rightarrow> nat \<Rightarrow> (slot \<Rightarrow> nat \<Rightarrow> 's \<Rightarrow> 's outcome) \<Rightarrow> 's \<Rightarrow> 's outcome" where
  "forEach [] i cb s = Returned s"
| "forEach (Hole # xs) i cb s = forEach xs (Suc i) cb s"
| "forEach (x # xs) i cb s = and_then (cb x i s) (forEach xs (Suc i) cb)"

section \<open>Resetting and repopulating\<close>

text \<open>
  \<^verbatim>\<open>
  const resetRefs = (doc) => {
    localEditedRef.current = {};
    pageContentRefs.current = {};
    (doc?.pages || []).forEach((_, i) => { localEditedRef.current[`page${i}`] = false; });
    (doc?.sections || []).forEach((_, i) => { localEditedRef.current[`section${i}`] = false; });
  };
  \<close>
\<close>

definition reset_cb :: "mode \<Rightarrow> slot \<Rightarrow> nat \<Rightarrow> viewer \<Rightarrow> viewer outcome" where
  "reset_cb m x i st = Returned (st\<lparr>localEditedRef := (localEditedRef st)((m, i) \<mapsto> False)\<rparr>)"

definition resetRefs :: "document option \<Rightarrow> viewer \<Rightarrow> viewer" where
  "resetRefs doc st =
     state_of (and_then
       (forEach (pages_of doc) 0 (reset_cb Page)
          (st\<lparr>localEditedRef := Map.empty, pageContentRefs := Map.empty\<rparr>))
       (forEach (sections_of doc) 0 (reset_cb Section)))"

text \<open>
  \<^verbatim>\<open>
  const populateEditorsFromDocument = (doc) => {
    if (!doc) return;
    (doc.pages || []).forEach((pg, idx) => {
      const el = pageContentRefs.current[`page${idx}`];
      if (!el || localEditedRef.current[`page${idx}`]) return;
      el.innerHTML = pg.content || "";
    });
    (doc.sections || []).forEach((sec, idx) => { ... the same with `section${idx}` ... });
  };
  \<close>
  Reading \<^verbatim>\<open>pg.content\<close> of a \<^verbatim>\<open>null\<close> entry throws a TypeError.

  An assignment to \<^verbatim>\<open>innerHTML\<close> makes the browser parse the string as a fragment,
  and what the element reads back afterwards is the serialization of that fragment: a bare
  ampersand comes back as \<^verbatim>\<open>&amp;\<close>, an unclosed tag comes back closed. The parser
  is the browser's, so this function from the assigned string to the \<^verbatim>\<open>innerHTML\<close>
  read back is the parameter \<open>readback\<close> of everything that writes markup into an
  element.
\<close>

definition populate_cb :: "(string \<Rightarrow> string) \<Rightarrow> mode \<Rightarrow> slot \<Rightarrow> nat \<Rightarrow> viewer \<Rightarrow> viewer outcome" where
  "populate_cb readback m pg idx st =
     (case pageContentRefs st (m, idx) of
        None \<Rightarrow> Returned st
      | Some el \<Rightarrow>
          if localEditedRef st (m, idx) = Some True then Returned st
          else (case pg of
                  Obj r \<Rightarrow> Returned (st\<lparr>pageContentRefs :=
                              (pageContentRefs st)((m, idx) \<mapsto> readback (or_empty (content r)))\<rparr>)
                | Nullish \<Rightarrow> Threw TypeError st
                | Hole \<Rightarrow> Threw TypeError st))"

fun populateEditorsFromDocument :: "(string \<Rightarrow> string) \<Rightarrow> document option \<Rightarrow> viewer \<Rightarrow> viewer outcome" where
  "populateEditorsFromDocument readback None st = Returned st"
| "populateEditorsFromDocument readback (Some doc) st =
     and_then (forEach (or_nil (pages doc)) 0 (populate_cb readback Page) st)
       (forEach (or_nil (sections doc)) 0 (populate_cb readback Section))"

text \<open>A pending timer fires: the oldest scheduled repopulation runs.\<close>

definition fire_timer :: "(string \<Rightarrow> string) \<Rightarrow> viewer \<Rightarrow> viewer outcome" where
  "fire_timer readback st =
     (case timers st of
        [] \<Rightarrow> Returned st
      | doc # rest \<Rightarrow> populateEditorsFromDocument readback (Some doc) (st\<lparr>timers := rest\<rparr>))"

text \<open>Any number of repopulation calls, one after the other, whatever each of them does.\<close>

fun repopulate :: "(string \<Rightarrow> string) \<Rightarrow> document option list \<Rightarrow> viewer \<Rightarrow> viewer" where
  "repopulate readback [] st = st"
| "repopulate readback (doc # docs) st = repopulate readback docs (state_of (populateEditorsFromDocument readback doc st))"

text \<open>
  All pending timers fire, the oldest first; a callback that throws does not keep the
  later ones from running.
\<close>

fun fire_timers :: "(string \<Rightarrow> string) \<Rightarrow> nat \<Rightarrow> viewer \<Rightarrow> viewer" where
  "fire_timers readback 0 st = st"
| "fire_timers readback (Suc n) st = fire_timers readback n (state_of (fire_timer readback st))"

definition run_timers :: "(string \<Rightarrow> string) \<Rightarrow> viewer \<Rightarrow> viewer" where
  "run_timers readback st = fire_timers readback (length (timers st)) st"

section \<open>Rendering and editing a region\<close>

text \<open>
  \<^verbatim>\<open>!el.innerHTML || el.innerHTML.trim() === ""\<close>. A character is a code unit below
  256; of these \<^verbatim>\<open>trim\<close> removes the tab, the line feed, the vertical tab, the form
  feed, the carriage return, the space and the no-break space.
\<close>

definition is_space :: "char \<Rightarrow> bool" where
  "is_space c = ((of_char c :: nat) \<in> {9, 10, 11, 12, 13, 32, 160})"

definition is_blank :: "string \<Rightarrow> bool" where
  "is_blank html = list_all is_space html"

text \<open>
  The \<^verbatim>\<open>ref\<close> callback of \<^verbatim>\<open>renderEditable(item, mode, idx)\<close>, called with the element
  React attaches, whose \<^verbatim>\<open>innerHTML\<close> is \<open>el\<close> at that moment:
  \<^verbatim>\<open>
  ref={(el) => {
    if (!el) return;
    pageContentRefs.current[refKey] = el;
    if (!localEditedRef.current[refKey] && (!el.innerHTML || el.innerHTML.trim() === "")) {
      el.innerHTML = item.content || "";
    }
  }}
  \<close>
\<close>

definition ref_callback :: "(string \<Rightarrow> string) \<Rightarrow> region \<Rightarrow> mode \<Rightarrow> nat \<Rightarrow> string \<Rightarrow> viewer \<Rightarrow> viewer" where
  "ref_callback readback item m idx el st =
     (if localEditedRef st (m, idx) \<noteq> Some True \<and> is_blank el
      then st\<lparr>pageContentRefs :=
             (pageContentRefs st)((m, idx) \<mapsto> readback (or_empty (content item)))\<rparr>
      else st\<lparr>pageContentRefs := (pageContentRefs st)((m, idx) \<mapsto> el)\<rparr>)"

text \<open>
  One render of the scroll area. While \<open>loading\<close> the spinner replaces the editors.
  Otherwise \<^verbatim>\<open>(documentData?.pages || []).map((pg, idx) => ... {pg.name} ...
  {renderEditable(pg, "page", idx)})\<close> and the same for the sections build the tree:
  \<^verbatim>\<open>map\<close> skips holes, \<^verbatim>\<open>pg.name\<close> of a \<^verbatim>\<open>null\<close> entry throws, and then nothing
  is committed. After a render that succeeds React calls the \<^verbatim>\<open>ref\<close> callbacks;
  \<open>els k\<close> is the \<^verbatim>\<open>innerHTML\<close> of the element it attaches for key \<open>k\<close> (empty for
  a new element).
\<close>

definition render_cb :: "(string \<Rightarrow> string) \<Rightarrow> (refKey \<Rightarrow> string) \<Rightarrow> mode \<Rightarrow> slot \<Rightarrow> nat \<Rightarrow> viewer \<Rightarrow> viewer outcome" where
  "render_cb readback els m pg idx st =
     (case pg of
        Obj r \<Rightarrow> Returned (ref_callback readback r m idx (els (m, idx)) st)
      | Nullish \<Rightarrow> Returned st
      | Hole \<Rightarrow> Returned st)"

definition renderEditors :: "(string \<Rightarrow> string) \<Rightarrow> (refKey \<Rightarrow> string) \<Rightarrow> viewer \<Rightarrow> viewer outcome" where
  "renderEditors readback els st =
     (if loading st then Returned st
      else if Nullish \<in> set (pages_of (documentData st)) \<or> Nullish \<in> set (sections_of (documentData st))
      then Threw TypeError st
      else and_then (forEach (pages_of (documentData st)) 0 (render_cb readback els Page) st)
             (forEach (sections_of (documentData st)) 0 (render_cb readback els Section)))"

text \<open>Array helpers of \<^verbatim>\<open>onInput\<close>: \<^verbatim>\<open>[...arr]\<close>, \<^verbatim>\<open>arr[idx]\<close> and \<^verbatim>\<open>arr[idx] = v\<close>.\<close>

fun unhole :: "slot \<Rightarrow> slot" where
  "unhole Hole = Nullish"
| "unhole x = x"

definition spread_array :: "slot list \<Rightarrow> slot list" where
  "spread_array arr = map unhole arr"

definition js_index :: "slot list \<Rightarrow> nat \<Rightarrow> slot" where
  "js_index arr idx = (if idx < length arr then unhole (arr ! idx) else Nullish)"

definition js_assign :: "slot list \<Rightarrow> nat \<Rightarrow> slot \<Rightarrow> slot list" where
  "js_assign arr idx v =
     (if idx < length arr then arr[idx := v]
      else arr @ replicate (idx - length arr) Hole @ [v])"

text \<open>
  \<^verbatim>\<open>
  onInput={() => {
    const node = pageContentRefs.current[refKey];
    if (!node) return;
    localEditedRef.current[refKey] = true;
    setDocumentData((prev) => {
      if (!prev) return prev;
      const copy = { ...prev };
      const html = node.innerHTML;
      if (mode === "page") {
        const arr = [...(copy.pages || [])];
        arr[idx] = { ...arr[idx], content: html };
        copy.pages = arr;
      } else { ... the same with copy.sections ... }
      return copy;
    });
  }}
  \<close>
  React runs the updater a moment later; the model reads \<^verbatim>\<open>node.innerHTML\<close> when the
  event is handled, the element being left alone in between.
\<close>

definition edited_array :: "slot list \<Rightarrow> nat \<Rightarrow> string \<Rightarrow> slot list" where
  "edited_array old idx html =
     (let arr = spread_array old
      in js_assign arr idx (Obj ((spread (js_index arr idx))\<lparr>content := Str html\<rparr>)))"

definition onInput :: "mode \<Rightarrow> nat \<Rightarrow> viewer \<Rightarrow> viewer" where
  "onInput m idx st =
     (case pageContentRefs st (m, idx) of
        None \<Rightarrow> st
      | Some html \<Rightarrow>
          (let st1 = st\<lparr>localEditedRef := (localEditedRef st)((m, idx) \<mapsto> True)\<rparr>
           in case documentData st1 of
                None \<Rightarrow> st1
              | Some prev \<Rightarrow>
                  if m = Page
                  then st1\<lparr>documentData :=
                         Some (prev\<lparr>pages := Some (edited_array (or_nil (pages prev)) idx html)\<rparr>)\<rparr>
                  else st1\<lparr>documentData :=
                         Some (prev\<lparr>sections := Some (edited_array (or_nil (sections prev)) idx html)\<rparr>)\<rparr>))"

text \<open>
  The user types into the element shown for a key: the browser changes its
  \<^verbatim>\<open>innerHTML\<close> and then fires the \<^verbatim>\<open>input\<close> event.
\<close>

definition user_edit :: "mode \<Rightarrow> nat \<Rightarrow> string \<Rightarrow> viewer \<Rightarrow> viewer" where
  "user_edit m idx html st =
     (case pageContentRefs st (m, idx) of
        None \<Rightarrow> st
      | Some old \<Rightarrow> onInput m idx (st\<lparr>pageContentRefs := (pageContentRefs st)((m, idx) \<mapsto> html)\<rparr>))"

section \<open>Fetching, saving and regenerating\<close>

text \<open>
  A request to the server either is rejected (with \<^verbatim>\<open>err?.response?.data?.detail\<close>) or
  resolves with a payload. For a document the payload is what the handler reads from the
  response (\<^verbatim>\<open>res.data?.document || res.data\<close> or \<^verbatim>\<open>res.data.document\<close>), \<open>None\<close>
  when that is missing.
\<close>

datatype 'a response = Rejected jsval | Resolved 'a

text \<open>\<^verbatim>\<open>detail || fallback\<close>\<close>

definition detail_or :: "jsval \<Rightarrow> string \<Rightarrow> string" where
  "detail_or detail fallback = (if truthy detail then or_empty detail else fallback)"

text \<open>
  \<^verbatim>\<open>
  const fetchDocument = async () => {
    setLoading(true);
    try {
      const res = await api.get(`/api/documents/${id}`);
      const doc = res.data?.document || res.data;
      const normalizedDoc = normalizeDocument(doc);
      setDocumentData(normalizedDoc);
      resetRefs(normalizedDoc);
      setTimeout(() => populateEditorsFromDocument(normalizedDoc), 50);
    } catch (err) {
      setSnack({ open: true, message: err?.response?.data?.detail || "Failed to load document",
                 severity: "error" });
    } finally {
      setLoading(false);
    }
  };
  \<close>
  The handler up to its \<^verbatim>\<open>await\<close>, and its continuation once the request has settled.
\<close>

definition fetchDocument_begin :: "viewer \<Rightarrow> viewer" where
  "fetchDocument_begin st = st\<lparr>loading := True\<rparr>"

definition fetchDocument_end :: "document option response \<Rightarrow> viewer \<Rightarrow> viewer" where
  "fetchDocument_end res st =
     (case res of
        Resolved doc \<Rightarrow>
          (let normalizedDoc = normalizeDocument doc;
               st1 = resetRefs (Some normalizedDoc) (st\<lparr>documentData := Some normalizedDoc\<rparr>)
           in st1\<lparr>timers := timers st1 @ [normalizedDoc], loading := False\<rparr>)
      | Rejected detail \<Rightarrow>
          st\<lparr>snack := \<lparr>is_open = True, message = detail_or detail ''Failed to load document'',
                        severity = ''error''\<rparr>,
             loading := False\<rparr>)"

definition fetchDocument :: "document option response \<Rightarrow> viewer \<Rightarrow> viewer" where
  "fetchDocument res st = fetchDocument_end res (fetchDocument_begin st)"

text \<open>
  \<^verbatim>\<open>
  const handleSave = async (mode, index) => {
    if (!documentData) return;
    const item = mode === "page" ? documentData.pages[index] : documentData.sections[index];
    const refKey = `${mode}${index}`;
    const el = pageContentRefs.current[refKey];
    if (!el) return;
    const html = el.innerHTML;
    try {
      const res = await api.post(`/api/documents/${id}/save-${mode}`,
        mode === "page" ? { page_name: item.name, content: html }
                        : { section_name: item.name, content: html });
      const updated = normalizeDocument(res.data.document);
      setDocumentData(updated);
      setSnack({ open: true, message: `${mode} "${item.name}" saved`, severity: "success" });
      localEditedRef.current[refKey] = true;
      setTimeout(() => populateEditorsFromDocument(updated), 50);
    } catch (err) {
      setSnack({ open: true, message: `Failed to save ${mode}`, severity: "error" });
    }
  };
  \<close>
  The result is the request sent to the server, if one is sent, and the state once the
  handler is done, for the given answer of the server, no other handler running while
  the request is in flight. Indexing a missing array throws before the \<^verbatim>\<open>try\<close>;
  \<^verbatim>\<open>item.name\<close> of a missing item throws inside it, before the request is made, and
  is caught there.
\<close>

text \<open>\<^verbatim>\<open>mode === "page" ? documentData.pages : documentData.sections\<close>\<close>

definition region_array :: "mode \<Rightarrow> document \<Rightarrow> slot list option" where
  "region_array m d = (if m = Page then pages d else sections d)"

record save_request =
  save_mode :: mode
  item_name :: jsval
  save_content :: string

definition save_failed :: "mode \<Rightarrow> snackbar" where
  "save_failed m =
     \<lparr>is_open = True, message = ''Failed to save '' @ mode_name m, severity = ''error''\<rparr>"

definition save_settled :: "mode \<Rightarrow> nat \<Rightarrow> region \<Rightarrow> document option response \<Rightarrow> viewer \<Rightarrow> viewer" where
  "save_settled m index item res st =
     (case res of
        Resolved doc \<Rightarrow>
          (let updated = normalizeDocument doc
           in st\<lparr>documentData := Some updated,
                 snack := \<lparr>is_open = True,
                            message = mode_name m @ '' \"'' @ template (name item) @ ''\" saved'',
                            severity = ''success''\<rparr>,
                 localEditedRef := (localEditedRef st)((m, index) \<mapsto> True),
                 timers := timers st @ [updated]\<rparr>)
      | Rejected detail \<Rightarrow> st\<lparr>snack := save_failed m\<rparr>)"

definition handleSave :: "mode \<Rightarrow> nat \<Rightarrow> document option response \<Rightarrow> viewer \<Rightarrow> save_request option \<times> viewer outcome" where
  "handleSave m index res st =
     (case documentData st of
        None \<Rightarrow> (None, Returned st)
      | Some d \<Rightarrow>
          (case region_array m d of
             None \<Rightarrow> (None, Threw TypeError st)
           | Some arr \<Rightarrow>
               (case pageContentRefs st (m, index) of
                  None \<Rightarrow> (None, Returned st)
                | Some html \<Rightarrow>
                    (case js_index arr index of
                       Obj item \<Rightarrow>
                         (Some \<lparr>save_mode = m, item_name = name item, save_content = html\<rparr>,
                          Returned (save_settled m index item res st))
                     | Nullish \<Rightarrow> (None, Returned (st\<lparr>snack := save_failed m\<rparr>))
                     | Hole \<Rightarrow> (None, Returned (st\<lparr>snack := save_failed m\<rparr>))))))"

text \<open>
  \<^verbatim>\<open>
  const handleRegenerateDocument = async () => {
    setLoading(true);
    try {
      const res = await api.post(`/api/documents/${id}/regenerate-document`,
                                 { raw_text: documentData?.raw_text || "" });
      const updated = normalizeDocument(res.data.document);
      setDocumentData(updated);
      setSnack({ open: true, message: "Document regenerated", severity: "success" });
      resetRefs(updated);
      setTimeout(() => populateEditorsFromDocument(updated), 50);
    } catch (err) {
      setSnack({ open: true, message: "Failed to regenerate document", severity: "error" });
    } finally {
      setLoading(false);
    }
  };
  \<close>
\<close>

definition handleRegenerateDocument_begin :: "viewer \<Rightarrow> viewer" where
  "handleRegenerateDocument_begin st = st\<lparr>loading := True, regenerating := Suc (regenerating st)\<rparr>"

definition regenerate_request :: "viewer \<Rightarrow> string" where
  "regenerate_request st =
     (case documentData st of None \<Rightarrow> [] | Some d \<Rightarrow> or_empty (raw_text d))"

definition handleRegenerateDocument_end :: "document option response \<Rightarrow> viewer \<Rightarrow> viewer" where
  "handleRegenerateDocument_end res st =
     (case res of
        Resolved doc \<Rightarrow>
          (let updated = normalizeDocument doc;
               st1 = resetRefs (Some updated)
                       (st\<lparr>documentData := Some updated,
                           snack := \<lparr>is_open = True, message = ''Document regenerated'',
                                      severity = ''success''\<rparr>\<rparr>)
           in st1\<lparr>timers := timers st1 @ [updated], loading := False,
                  regenerating := regenerating st1 - 1\<rparr>)
      | Rejected detail \<Rightarrow>
          st\<lparr>snack := \<lparr>is_open = True, message = ''Failed to regenerate document'',
                        severity = ''error''\<rparr>,
             loading := False, regenerating := regenerating st - 1\<rparr>)"

text \<open>
  The buttons that start the two operations gated on \<open>loading\<close>:
  \<^verbatim>\<open><Button variant="outlined" onClick={handleOpenPreview} disabled={loading}>\<close> and
  \<^verbatim>\<open><Button onClick={handleRegenerateDocument} variant="contained" color="primary">\<close>.
\<close>

definition preview_button_disabled :: "viewer \<Rightarrow> bool" where
  "preview_button_disabled st = loading st"

definition regenerate_button_disabled :: "viewer \<Rightarrow> bool" where
  "regenerate_button_disabled st = False"

text \<open>
  The events of whole-document regeneration: a click on the button when it is not
  disabled, and the settling of a request that is in flight.
\<close>

inductive regen_step :: "viewer \<Rightarrow> viewer \<Rightarrow> bool" where
  click: "\<not> regenerate_button_disabled st \<Longrightarrow> regen_step st (handleRegenerateDocument_begin st)"
| settle: "0 < regenerating st \<Longrightarrow> regen_step st (handleRegenerateDocument_end res st)"

section \<open>Search\<close>

text \<open>
  Strings are lists of code units below 256 (Latin-1). On these
  \<^verbatim>\<open>String.prototype.toLowerCase\<close> works unit by unit: it moves \<^verbatim>\<open>A\<close> to \<^verbatim>\<open>Z\<close> and
  the capital letters U+00C0 to U+00DE (but not the multiplication sign U+00D7) up by 32.
\<close>

definition lower_char :: "char \<Rightarrow> char" where
  "lower_char c =
     (let n = (of_char c :: nat)
      in if (65 \<le> n \<and> n \<le> 90) \<or> (192 \<le> n \<and> n \<le> 222 \<and> n \<noteq> 215)
         then char_of (n + 32) else c)"

definition toLowerCase :: "string \<Rightarrow> string" where
  "toLowerCase s = map lower_char s"

text \<open>
  \<^verbatim>\<open>JSON.stringify\<close> of a field: \<^verbatim>\<open>undefined\<close> for \<^verbatim>\<open>undefined\<close> (here \<open>None\<close>),
  \<^verbatim>\<open>"null"\<close> for \<^verbatim>\<open>null\<close>, and a string between double quotes with the double quote,
  the backslash and the control characters escaped.
\<close>

definition dquote :: char where
  "dquote = CHR 0x22"

definition backslash :: char where
  "backslash = CHR 0x5C"

definition hex_digit :: "nat \<Rightarrow> char" where
  "hex_digit d = ''0123456789abcdef'' ! (d mod 16)"

definition quote_char :: "char \<Rightarrow> string" where
  "quote_char c =
     (let n = (of_char c :: nat)
      in if n = 8 then [backslash, CHR ''b'']
         else if n = 9 then [backslash, CHR ''t'']
         else if n = 10 then [backslash, CHR ''n'']
         else if n = 12 then [backslash, CHR ''f'']
         else if n = 13 then [backslash, CHR ''r'']
         else if n = 34 then [backslash, dquote]
         else if n = 92 then [backslash, backslash]
         else if n < 32 then [backslash, CHR ''u'', CHR ''0'', CHR ''0'', hex_digit (n div 16), hex_digit n]
         else [c])"

fun json_stringify :: "jsval \<Rightarrow> string option" where
  "json_stringify Undefined = None"
| "json_stringify Null = Some ''null''"
| "json_stringify (Str s) = Some ([dquote] @ concat (map quote_char s) @ [dquote])"

text \<open>\<^verbatim>\<open>hay.includes(needle)\<close>\<close>

fun starts_with :: "string \<Rightarrow> string \<Rightarrow> bool" where
  "starts_with hay [] = True"
| "starts_with [] (n # ns) = False"
| "starts_with (h # hs) (n # ns) = (h = n \<and> starts_with hs ns)"

fun js_includes :: "string \<Rightarrow> string \<Rightarrow> bool" where
  "js_includes [] needle = (needle = [])"
| "js_includes (h # hs) needle = (starts_with (h # hs) needle \<or> js_includes hs needle)"

text \<open>
  \<^verbatim>\<open>
  const allItems = [
    ...(documentData.pages || []).map((p) => ({ ...p, _mode: "page" })),
    ...(documentData.sections || []).map((s) => ({ ...s, _mode: "section" })),
  ];
  \<close>
\<close>

definition allItems :: "document \<Rightarrow> slot list" where
  "allItems d =
     spread_array (js_map (\<lambda>p. Obj (spread p)) (or_nil (pages d))) @
     spread_array (js_map (\<lambda>s. Obj (spread s)) (or_nil (sections d)))"

text \<open>
  The callback \<^verbatim>\<open>(i) => JSON.stringify(i.content).toLowerCase().includes(lower)\<close>.
  \<open>serialized\<close> is its \<^verbatim>\<open>JSON.stringify(i.content)\<close>; the callback throws a
  TypeError when that is \<^verbatim>\<open>undefined\<close>, and already at \<^verbatim>\<open>i.content\<close> when the item
  itself is \<^verbatim>\<open>undefined\<close>.
\<close>

definition serialized :: "slot \<Rightarrow> string option" where
  "serialized i =
     (case i of
        Obj r \<Rightarrow> json_stringify (content r)
      | Nullish \<Rightarrow> None
      | Hole \<Rightarrow> None)"

definition match_cb :: "string \<Rightarrow> slot \<Rightarrow> js_error + bool" where
  "match_cb lower i =
     (case serialized i of
        None \<Rightarrow> Inl TypeError
      | Some text \<Rightarrow> Inr (js_includes (toLowerCase text) lower))"

text \<open>\<^verbatim>\<open>Array.prototype.findIndex\<close>; \<open>None\<close> stands for \<open>-1\<close>.\<close>

fun findIndex :: "(slot \<Rightarrow> js_error + bool) \<Rightarrow> slot list \<Rightarrow> nat \<Rightarrow> js_error + nat option" where
  "findIndex p [] i = Inr None"
| "findIndex p (x # xs) i =
     (case p x of
        Inl e \<Rightarrow> Inl e
      | Inr found \<Rightarrow> if found then Inr (Some i) else findIndex p xs (Suc i))"

text \<open>
  The region the search settles on:
  \<^verbatim>\<open>
  const lower = search.toLowerCase();
  const idx = allItems.findIndex(...);
  const refKey = idx < (documentData.pages || []).length
      ? `page${idx}` : `section${idx - (documentData.pages || []).length}`;
  \<close>
\<close>

definition refKey_of :: "document \<Rightarrow> nat \<Rightarrow> refKey" where
  "refKey_of d idx =
     (if idx < length (or_nil (pages d)) then (Page, idx)
      else (Section, idx - length (or_nil (pages d))))"

definition locate :: "string \<Rightarrow> document \<Rightarrow> js_error + refKey option" where
  "locate search d =
     (case findIndex (match_cb (toLowerCase search)) (allItems d) 0 of
        Inl e \<Rightarrow> Inl e
      | Inr None \<Rightarrow> Inr None
      | Inr (Some idx) \<Rightarrow> Inr (Some (refKey_of d idx)))"

text \<open>
  \<^verbatim>\<open>
  const handleSearch = () => {
    if (!search || !documentData) return;
    ...
    if (idx >= 0) {
      const el = pageContentRefs.current[refKey];
      if (el && viewerScrollRef.current) {
        viewerScrollRef.current.scrollTo({ top: el.offsetTop - 12, behavior: "smooth" });
        const regex = new RegExp(`(${search})`, "gi");
        el.querySelectorAll("mark").forEach((m) => { m.outerHTML = m.innerText; });
        el.innerHTML = el.innerHTML.replace(regex, "<mark>$1</mark>");
      }
    } else {
      setSnack({ open: true, message: "Not found", severity: "info" });
    }
  };
  \<close>
  The last three statements run in the browser's regular expression engine and HTML
  parser. Their joint effect is the parameter \<open>mark\<close>: from the query and the element's
  \<^verbatim>\<open>innerHTML\<close> it gives the new \<^verbatim>\<open>innerHTML\<close>, or the error the \<^verbatim>\<open>RegExp\<close>
  constructor throws for a query that is not a pattern.
\<close>



definition not_found :: snackbar where
  "not_found = \<lparr>is_open = True, message = ''Not found'', severity = ''info''\<rparr>"

definition handleSearch :: "(string \<Rightarrow> string \<Rightarrow> js_error + string) \<Rightarrow> string \<Rightarrow> viewer \<Rightarrow> viewer outcome" where
  "handleSearch mark search st =
     (if search = [] then Returned st
      else case documentData st of
        None \<Rightarrow> Returned st
      | Some d \<Rightarrow>
          (case locate search d of
             Inl e \<Rightarrow> Threw e st
           | Inr None \<Rightarrow> Returned (st\<lparr>snack := not_found\<rparr>)
           | Inr (Some refKey) \<Rightarrow>
               (case pageContentRefs st refKey of
                  None \<Rightarrow> Returned st
                | Some html \<Rightarrow>
                    if \<not> viewerScrollRef st then Returned st
                    else (case mark search html of
                            Inl e \<Rightarrow> Threw e (st\<lparr>scrolledTo := Some refKey\<rparr>)
                          | Inr html' \<Rightarrow>
                              Returned (st\<lparr>scrolledTo := Some refKey,
                                           pageContentRefs := (pageContentRefs st)(refKey \<mapsto> html')\<rparr>)))))"

section \<open>Preview and download\<close>

text \<open>
  \<^verbatim>\<open>
  const pageHtml = (documentData?.pages || []).map((_, idx) => {
    const el = pageContentRefs.current[`page${idx}`];
    return el ? el.innerHTML : "";
  });
  const sectionHtml = ... the same with the sections ...;
  const joined = [...pageHtml, ...sectionHtml].join("");
  \<close>
  \<^verbatim>\<open>map\<close> leaves a hole where the array has one (\<open>None\<close>), and \<^verbatim>\<open>join\<close> writes
  nothing for it.
\<close>

definition read_html :: "viewer \<Rightarrow> refKey \<Rightarrow> string" where
  "read_html st k = (case pageContentRefs st k of None \<Rightarrow> [] | Some html \<Rightarrow> html)"

fun region_html :: "viewer \<Rightarrow> mode \<Rightarrow> slot list \<Rightarrow> nat \<Rightarrow> string option list" where
  "region_html st m [] idx = []"
| "region_html st m (Hole # xs) idx = None # region_html st m xs (Suc idx)"
| "region_html st m (x # xs) idx = Some (read_html st (m, idx)) # region_html st m xs (Suc idx)"

fun join_entry :: "string option \<Rightarrow> string" where
  "join_entry None = []"
| "join_entry (Some s) = s"

definition joined :: "viewer \<Rightarrow> string" where
  "joined st =
     concat (map join_entry
       (region_html st Page (pages_of (documentData st)) 0 @
        region_html st Section (sections_of (documentData st)) 0))"

text \<open>A number inside a template literal: the decimal digits of a natural number.\<close>

definition digit_char :: "nat \<Rightarrow> char" where
  "digit_char d = ''0123456789'' ! (d mod 10)"

fun decimal :: "nat \<Rightarrow> string" where
  "decimal n = (if n < 10 then [digit_char n] else decimal (n div 10) @ [digit_char n])"

declare decimal.simps [simp del]

text \<open>The template literal \<^verbatim>\<open>styledHtml\<close> of both handlers, line by line.\<close>

definition newline :: char where
  "newline = CHR 0x0A"

definition styledHtml :: "string \<Rightarrow> nat \<Rightarrow> string \<Rightarrow> string" where
  "styledHtml family px body =
     concat (map (\<lambda>line. line @ [newline])
       [[],
        ''<html>'',
        ''<head>'',
        ''  <meta charset='' @ [dquote] @ ''utf-8'' @ [dquote] @ ''/>'',
        ''  <style>'',
        ''    body { font-family: '' @ family @ '', sans-serif; font-size: '' @ decimal px @
          ''px; line-height: 1.5; margin: 40px; }'',
        ''    h1, h2, h3, h4, h5, h6 { font-weight: bold; margin-top: 20px; margin-bottom: 10px; }'',
        ''    p { margin: 10px 0; }'',
        ''    ul, ol { margin: 10px 20px; }'',
        ''    table { border-collapse: collapse; width: 100%; margin: 15px 0; }'',
        ''    th, td { border: 1px solid #333; padding: 6px; text-align: left; }'',
        ''  </style>'',
        ''</head>'',
        ''<body>'',
        ''  '' @ body,
        ''</body>'',
        ''</html>''])"

text \<open>
  \<^verbatim>\<open>handleOpenPreview\<close> has no \<^verbatim>\<open>await\<close>: it sets \<open>loading\<close>, builds the page, stores
  the object URL of its blob, opens the dialog and clears \<open>loading\<close> again. Nothing in
  its \<^verbatim>\<open>try\<close> block throws.
\<close>

definition handleOpenPreview :: "viewer \<Rightarrow> viewer" where
  "handleOpenPreview st =
     st\<lparr>previewUrl := Some (styledHtml (fontFamily st) (fontSize st) (joined st)),
        openPreview := True, loading := False\<rparr>"

text \<open>
  \<^verbatim>\<open>handleDownload\<close> sets \<open>loading\<close>, closes the menu, builds the same page and posts
  \<^verbatim>\<open>{ title: documentData?.title || `document_${id}`, htmlContent: styledHtml }\<close> to the
  export service. When that resolves the file \<^verbatim>\<open>`${payload.title}.docx`\<close> is offered and
  announced; when it is rejected the snackbar says \<^verbatim>\<open>Export failed\<close>.
\<close>

record export_request =
  export_title :: string
  htmlContent :: string

definition export_payload :: "viewer \<Rightarrow> export_request" where
  "export_payload st =
     \<lparr>export_title =
        (case documentData st of
           None \<Rightarrow> ''document_'' @ route_id st
         | Some d \<Rightarrow> if truthy (title d) then or_empty (title d) else ''document_'' @ route_id st),
      htmlContent = styledHtml (fontFamily st) (fontSize st) (joined st)\<rparr>"

definition handleDownload :: "unit response \<Rightarrow> viewer \<Rightarrow> export_request \<times> viewer" where
  "handleDownload res st =
     (let payload = export_payload st
      in (payload,
          case res of
            Resolved blob \<Rightarrow>
              st\<lparr>anchorElDownload := False,
                 snack := \<lparr>is_open = True,
                            message = ''Downloaded '' @ export_title payload @ ''.docx'',
                            severity = ''success''\<rparr>,
                 loading := False\<rparr>
          | Rejected detail \<Rightarrow>
              st\<lparr>anchorElDownload := False,
                 snack := \<lparr>is_open = True, message = ''Export failed'', severity = ''error''\<rparr>,
                 loading := False\<rparr>))"

section \<open>Registration order and the shape of the stored document\<close>


text \<open>
  \<^verbatim>\<open>setDocumentData\<close> only ever receives a result of \<^verbatim>\<open>normalizeDocument\<close> or the
  copy \<^verbatim>\<open>onInput\<close> makes of the previous value, so the stored document, when there is
  one, has both arrays.
\<close>

definition arrays_present :: "viewer \<Rightarrow> bool" where
  "arrays_present st =
     (case documentData st of
        None \<Rightarrow> True
      | Some d \<Rightarrow> pages d \<noteq> None \<and> sections d \<noteq> None)"

section \<open>Example states\<close>

text \<open>
  The component right after it is mounted for document 1, a document with one page and
  one section, and what the server may answer later.
\<close>

definition mounted :: viewer where
  "mounted =
     \<lparr>route_id = ''1'', documentData = None, loading = False,
      snack = \<lparr>is_open = False, message = [], severity = ''error''\<rparr>,
      openPreview = False, previewUrl = None, anchorElDownload = False,
      viewerScrollRef = True, scrolledTo = None,
      pageContentRefs = Map.empty, localEditedRef = Map.empty,
      fontFamily = ''Calibri'', fontSize = 16, timers = [], regenerating = 0\<rparr>"

definition region_of :: "string \<Rightarrow> string \<Rightarrow> region" where
  "region_of n c = \<lparr>name = Str n, content = Str c, type = Undefined, layout = Undefined\<rparr>"

definition intro_doc :: document where
  "intro_doc =
     \<lparr>title = Str ''Report'', raw_text = Str ''source'',
      pages = Some [Obj (region_of ''Intro'' ''<p>Hi</p>'')],
      sections = Some [Obj (region_of ''Summary'' ''<p>old</p>'')]\<rparr>"

definition rewritten_doc :: document where
  "rewritten_doc =
     \<lparr>title = Str ''Report'', raw_text = Str ''source'',
      pages = Some [Obj (region_of ''Intro'' ''<p>Rewritten</p>'')],
      sections = Some [Obj (region_of ''Summary'' ''<p>theirs</p>'')]\<rparr>"

definition bare_doc :: document where
  "bare_doc =
     \<lparr>title = Undefined, raw_text = Undefined, pages = None,
      sections = Some [Obj (region_of ''Summary'' ''<p>old</p>''), Nullish]\<rparr>"


text \<open>
  The markup of the examples is well formed and holds no character to escape: it reads
  back as it was assigned.
\<close>

definition as_written :: "string \<Rightarrow> string" where
  "as_written markup = markup"

text \<open>Every element React attaches is new, hence empty.\<close>

definition fresh :: "refKey \<Rightarrow> string" where
  "fresh k = []"

text \<open>\<open>intro_doc\<close> has arrived, nothing is rendered yet.\<close>

definition loaded :: viewer where
  "loaded = fetchDocument (Resolved (Some intro_doc)) mounted"

text \<open>The viewer showing \<open>intro_doc\<close>: fetched, rendered, the timer fired.\<close>

definition shown :: viewer where
  "shown =
     state_of (fire_timer as_written (state_of (renderEditors as_written fresh
       (fetchDocument (Resolved (Some intro_doc)) mounted))))"

text \<open>The same after the user has typed into the first page.\<close>

definition edited :: viewer where
  "edited = user_edit Page 0 ''<p>Hi there</p>'' shown"

text \<open>The whole document regenerated from there, rendered and repopulated.\<close>

definition regenerated :: viewer where
  "regenerated =
     state_of (fire_timer as_written (state_of (renderEditors as_written fresh
       (handleRegenerateDocument_end (Resolved (Some rewritten_doc))
          (handleRegenerateDocument_begin edited)))))"

text \<open>
  The section is edited and saved, the server answering with the saved document, and the
  timer of the save fires. Then the document is fetched again, and the server's copy has
  changed in the meantime.
\<close>

definition saved_doc :: document where
  "saved_doc =
     \<lparr>title = Str ''Report'', raw_text = Str ''source'',
      pages = Some [Obj (region_of ''Intro'' ''<p>Hi</p>'')],
      sections = Some [Obj (region_of ''Summary'' ''<p>mine</p>'')]\<rparr>"

definition saved :: viewer where
  "saved =
     state_of (fire_timer as_written (state_of (snd
       (handleSave Section 0 (Resolved (Some saved_doc)) (user_edit Section 0 ''<p>mine</p>'' shown)))))"

definition refetched :: viewer where
  "refetched =
     state_of (fire_timer as_written (state_of (renderEditors as_written fresh
       (fetchDocument (Resolved (Some rewritten_doc)) saved))))"




section \<open>Repopulation respects the edited flags\<close>

lemma state_of_and_then:
  "state_of (and_then r f) = (case r of Returned s \<Rightarrow> state_of (f s) | Threw e s \<Rightarrow> s)"
  by (cases r) simp_all

lemma forEach_invariant:
  assumes step: "\<And>x i s. P s \<Longrightarrow> P (state_of (cb x i s))"
    and init: "P s"
  shows "P (state_of (forEach xs i cb s))"
  using init
proof (induction xs arbitrary: i s)
  case Nil
  then show ?case by simp
next
  case (Cons x xs)
  show ?case
  proof (cases x)
    case Hole
    with Cons show ?thesis by simp
  next
    case Nullish
    from step [OF Cons.prems, of x i] Cons.IH Nullish show ?thesis
      by (cases "cb x i s") simp_all
  next
    case (Obj r)
    from step [OF Cons.prems, of x i] Cons.IH Obj show ?thesis
      by (cases "cb x i s") simp_all
  qed
qed

lemma populate_cb_flags: "localEditedRef (state_of (populate_cb readback m pg idx st)) = localEditedRef st"
  by (simp add: populate_cb_def split: option.splits slot.splits)

lemma populate_cb_dirty:
  "localEditedRef st k = Some True \<Longrightarrow>
   pageContentRefs (state_of (populate_cb readback m pg idx st)) k = pageContentRefs st k"
  by (auto simp: populate_cb_def split: option.splits slot.splits)

lemma populate_cb_other:
  "k \<noteq> (m, idx) \<Longrightarrow> pageContentRefs (state_of (populate_cb readback m pg idx st)) k = pageContentRefs st k"
  by (auto simp: populate_cb_def split: option.splits slot.splits)

lemma forEach_populate_keeps:
  assumes "localEditedRef st = F" and "pageContentRefs st k = v" and "F k = Some True"
  shows "localEditedRef (state_of (forEach xs i (populate_cb readback m) st)) = F \<and>
         pageContentRefs (state_of (forEach xs i (populate_cb readback m) st)) k = v"
proof (rule forEach_invariant [where P = "\<lambda>s::viewer. localEditedRef s = F \<and> pageContentRefs s k = v"])
  fix x i and s :: viewer
  assume "localEditedRef s = F \<and> pageContentRefs s k = v"
  with assms(3) show "localEditedRef (state_of (populate_cb readback m x i s)) = F \<and>
      pageContentRefs (state_of (populate_cb readback m x i s)) k = v"
    by (simp add: populate_cb_flags populate_cb_dirty)
next
  from assms show "localEditedRef st = F \<and> pageContentRefs st k = v" by simp
qed

lemma forEach_populate_flags:
  "localEditedRef (state_of (forEach xs i (populate_cb readback m) st)) = localEditedRef st"
  by (rule forEach_invariant [where P = "\<lambda>s::viewer. localEditedRef s = localEditedRef st"])
     (simp_all add: populate_cb_flags)

lemma populate_flags:
  "localEditedRef (state_of (populateEditorsFromDocument readback doc st)) = localEditedRef st"
proof (cases doc)
  case None
  then show ?thesis by simp
next
  case (Some d)
  show ?thesis
  proof (cases "forEach (or_nil (pages d)) 0 (populate_cb readback Page) st")
    case (Returned s)
    with forEach_populate_flags [of "or_nil (pages d)" 0 readback Page st]
      forEach_populate_flags [of "or_nil (sections d)" 0 readback Section s] Some
    show ?thesis by simp
  next
    case (Threw e s)
    with forEach_populate_flags [of "or_nil (pages d)" 0 readback Page st] Some
    show ?thesis by simp
  qed
qed

lemma populate_dirty:
  assumes "localEditedRef st k = Some True"
  shows "pageContentRefs (state_of (populateEditorsFromDocument readback doc st)) k = pageContentRefs st k"
proof (cases doc)
  case None
  then show ?thesis by simp
next
  case (Some d)
  have first: "localEditedRef (state_of (forEach (or_nil (pages d)) 0 (populate_cb readback Page) st)) = localEditedRef st \<and>
      pageContentRefs (state_of (forEach (or_nil (pages d)) 0 (populate_cb readback Page) st)) k = pageContentRefs st k"
    using assms by (intro forEach_populate_keeps) simp_all
  show ?thesis
  proof (cases "forEach (or_nil (pages d)) 0 (populate_cb readback Page) st")
    case (Returned s)
    with first have "localEditedRef s = localEditedRef st" "pageContentRefs s k = pageContentRefs st k"
      by simp_all
    with assms have "pageContentRefs (state_of (forEach (or_nil (sections d)) 0 (populate_cb readback Section) s)) k = pageContentRefs st k"
      using forEach_populate_keeps [of s "localEditedRef st" k "pageContentRefs st k" "or_nil (sections d)" 0 readback Section]
      by simp
    with Returned Some show ?thesis by simp
  next
    case (Threw e s)
    with first Some show ?thesis by simp
  qed
qed

lemma repopulate_dirty:
  "localEditedRef st k = Some True \<Longrightarrow>
   pageContentRefs (repopulate readback docs st) k = pageContentRefs st k \<and>
   localEditedRef (repopulate readback docs st) k = Some True"
proof (induction docs arbitrary: st)
  case Nil
  then show ?case by simp
next
  case (Cons doc docs)
  let ?s = "state_of (populateEditorsFromDocument readback doc st)"
  from Cons.prems have "localEditedRef ?s k = Some True" "pageContentRefs ?s k = pageContentRefs st k"
    by (simp_all add: populate_flags populate_dirty)
  with Cons.IH [of ?s] show ?case by simp
qed

lemma forEach_populate_frame:
  "(\<And>i. j \<le> i \<Longrightarrow> k \<noteq> (m, i)) \<Longrightarrow>
   pageContentRefs (state_of (forEach xs j (populate_cb readback m) st)) k = pageContentRefs st k"
proof (induction xs arbitrary: j st)
  case Nil
  then show ?case by simp
next
  case (Cons x xs)
  have rest: "pageContentRefs (state_of (forEach xs (Suc j) (populate_cb readback m) s)) k = pageContentRefs s k" for s
    using Cons.prems by (intro Cons.IH) simp
  have here: "pageContentRefs (state_of (populate_cb readback m x j st)) k = pageContentRefs st k"
    using Cons.prems [of j] by (simp add: populate_cb_other)
  show ?case
  proof (cases "x = Hole")
    case True
    with rest show ?thesis by simp
  next
    case False
    then have "forEach (x # xs) j (populate_cb readback m) st =
        and_then (populate_cb readback m x j st) (forEach xs (Suc j) (populate_cb readback m))"
      by (cases x) simp_all
    with here rest show ?thesis
      by (cases "populate_cb readback m x j st") simp_all
  qed
qed

lemma forEach_populate_nth:
  "forEach xs j (populate_cb readback m) st = Returned st' \<Longrightarrow> i < length xs \<Longrightarrow> xs ! i = Obj pg \<Longrightarrow>
   pageContentRefs st (m, j + i) \<noteq> None \<Longrightarrow> localEditedRef st (m, j + i) \<noteq> Some True \<Longrightarrow>
   pageContentRefs st' (m, j + i) = Some (readback (or_empty (content pg)))"
proof (induction xs arbitrary: i j st)
  case Nil
  then show ?case by simp
next
  case (Cons x xs)
  show ?case
  proof (cases i)
    case 0
    with Cons.prems have x: "x = Obj pg" by simp
    from Cons.prems 0 obtain el where el: "pageContentRefs st (m, j) = Some el" by auto
    let ?s = "st\<lparr>pageContentRefs := (pageContentRefs st)((m, j) \<mapsto> readback (or_empty (content pg)))\<rparr>"
    from Cons.prems 0 el x have cb: "populate_cb readback m x j st = Returned ?s"
      by (simp add: populate_cb_def)
    with Cons.prems x have run: "forEach xs (Suc j) (populate_cb readback m) ?s = Returned st'" by simp
    have "pageContentRefs (state_of (forEach xs (Suc j) (populate_cb readback m) ?s)) (m, j) = pageContentRefs ?s (m, j)"
      by (rule forEach_populate_frame) simp
    with run 0 show ?thesis by simp
  next
    case (Suc n)
    with Cons.prems have n: "n < length xs" "xs ! n = Obj pg" by simp_all
    show ?thesis
    proof (cases "x = Hole")
      case True
      with Cons.prems have "forEach xs (Suc j) (populate_cb readback m) st = Returned st'" by simp
      from Cons.IH [OF this n] Cons.prems Suc show ?thesis by simp
    next
      case False
      then have unfold: "forEach (x # xs) j (populate_cb readback m) st =
          and_then (populate_cb readback m x j st) (forEach xs (Suc j) (populate_cb readback m))"
        by (cases x) simp_all
      with Cons.prems obtain s where s: "populate_cb readback m x j st = Returned s"
        and run: "forEach xs (Suc j) (populate_cb readback m) s = Returned st'"
        by (cases "populate_cb readback m x j st") simp_all
      have "pageContentRefs s (m, Suc j + n) = pageContentRefs st (m, Suc j + n)"
        using populate_cb_other [of "(m, Suc j + n)" m j readback x st] s by simp
      moreover have "localEditedRef s = localEditedRef st"
        using populate_cb_flags [of readback m x j st] s by simp
      ultimately show ?thesis
        using Cons.IH [OF run n] Cons.prems Suc by simp
    qed
  qed
qed

lemma populate_overwrites_page:
  assumes "populateEditorsFromDocument readback (Some d) st = Returned st'"
    and "i < length (or_nil (pages d))" and "or_nil (pages d) ! i = Obj pg"
    and "pageContentRefs st (Page, i) \<noteq> None" and "localEditedRef st (Page, i) \<noteq> Some True"
  shows "pageContentRefs st' (Page, i) = Some (readback (or_empty (content pg)))"
proof -
  from assms(1) obtain s where s: "forEach (or_nil (pages d)) 0 (populate_cb readback Page) st = Returned s"
    and run: "forEach (or_nil (sections d)) 0 (populate_cb readback Section) s = Returned st'"
    by (cases "forEach (or_nil (pages d)) 0 (populate_cb readback Page) st") simp_all
  from forEach_populate_nth [OF s assms(2,3)] assms(4,5)
  have "pageContentRefs s (Page, i) = Some (readback (or_empty (content pg)))" by simp
  moreover have "pageContentRefs (state_of (forEach (or_nil (sections d)) 0 (populate_cb readback Section) s)) (Page, i)
      = pageContentRefs s (Page, i)"
    by (rule forEach_populate_frame) simp
  ultimately show ?thesis using run by simp
qed

lemma populate_overwrites_section:
  assumes "populateEditorsFromDocument readback (Some d) st = Returned st'"
    and "i < length (or_nil (sections d))" and "or_nil (sections d) ! i = Obj sec"
    and "pageContentRefs st (Section, i) \<noteq> None" and "localEditedRef st (Section, i) \<noteq> Some True"
  shows "pageContentRefs st' (Section, i) = Some (readback (or_empty (content sec)))"
proof -
  from assms(1) obtain s where s: "forEach (or_nil (pages d)) 0 (populate_cb readback Page) st = Returned s"
    and run: "forEach (or_nil (sections d)) 0 (populate_cb readback Section) s = Returned st'"
    by (cases "forEach (or_nil (pages d)) 0 (populate_cb readback Page) st") simp_all
  have "pageContentRefs (state_of (forEach (or_nil (pages d)) 0 (populate_cb readback Page) st)) (Section, i)
      = pageContentRefs st (Section, i)"
    by (rule forEach_populate_frame) simp
  moreover have "localEditedRef (state_of (forEach (or_nil (pages d)) 0 (populate_cb readback Page) st)) = localEditedRef st"
    by (rule forEach_populate_flags)
  ultimately have "pageContentRefs s (Section, i) \<noteq> None" "localEditedRef s (Section, i) \<noteq> Some True"
    using s assms(4,5) by simp_all
  with forEach_populate_nth [OF run assms(2,3)] show ?thesis by simp
qed

lemma user_edit_marks:
  "pageContentRefs st (m, idx) \<noteq> None \<Longrightarrow>
   localEditedRef (user_edit m idx html st) (m, idx) = Some True \<and>
   pageContentRefs (user_edit m idx html st) (m, idx) = Some html"
  by (auto simp: user_edit_def onInput_def Let_def split: option.splits)

lemma handleSave_marks:
  "fst (handleSave m idx (Resolved doc) st) \<noteq> None \<Longrightarrow>
   localEditedRef (state_of (snd (handleSave m idx (Resolved doc) st))) (m, idx) = Some True \<and>
   pageContentRefs (state_of (snd (handleSave m idx (Resolved doc) st))) = pageContentRefs st"
  by (auto simp: handleSave_def save_settled_def Let_def split: option.splits slot.splits)

section \<open>Dirty dominance\<close>

lemmas eval_defs = mounted_def region_of_def intro_doc_def rewritten_doc_def as_written_def
  fresh_def shown_def edited_def fire_timer_def
  fetchDocument_def fetchDocument_begin_def fetchDocument_end_def resetRefs_def reset_cb_def
  renderEditors_def render_cb_def ref_callback_def is_blank_def populate_cb_def
  handleSave_def save_settled_def region_array_def js_index_def user_edit_def onInput_def
  edited_array_def spread_array_def js_assign_def Let_def

lemma shown_refs:
  "pageContentRefs shown (Page, 0) = Some ''<p>Hi</p>''"
  "pageContentRefs shown (Section, 0) = Some ''<p>old</p>''"
  "localEditedRef shown (Page, 0) = Some False"
  "localEditedRef shown (Section, 0) = Some False"
  "loading shown = False"
  "timers shown = []"
  by (simp_all add: eval_defs)

lemma edited_refs:
  "pageContentRefs edited (Page, 0) = Some ''<p>Hi there</p>''"
  "pageContentRefs edited (Section, 0) = Some ''<p>old</p>''"
  "localEditedRef edited (Page, 0) = Some True"
  "localEditedRef edited (Section, 0) = Some False"
  by (simp_all add: eval_defs)

lemma populate_overwrites:
  assumes "populateEditorsFromDocument readback (Some d) st = Returned st'"
    and "i < length (or_nil (region_array m d))" and "or_nil (region_array m d) ! i = Obj r"
    and "pageContentRefs st (m, i) \<noteq> None" and "localEditedRef st (m, i) \<noteq> Some True"
  shows "pageContentRefs st' (m, i) = Some (readback (or_empty (content r)))"
proof (cases m)
  case Page
  with assms populate_overwrites_page [of readback d st st' i r] show ?thesis
    by (simp add: region_array_def)
next
  case Section
  with assms populate_overwrites_section [of readback d st st' i r] show ?thesis
    by (simp add: region_array_def)
qed

text \<open>
  C1, dirty dominance. A key whose edited flag is set keeps its live content and its flag
  through any number of calls of \<open>populateEditorsFromDocument\<close>, whatever the documents
  are; so a key whose content a repopulation changed had a clean flag. The flag is set by
  typing into a registered region and by a save the server accepted. A clean, registered
  key of a region of the document holds, when the call returns, what the browser reads
  back of that region's content.
\<close>

theorem dirty_dominance:
  "(localEditedRef st k = Some True \<longrightarrow>
      pageContentRefs (repopulate readback docs st) k = pageContentRefs st k \<and>
      localEditedRef (repopulate readback docs st) k = Some True) \<and>
   (pageContentRefs (repopulate readback docs st) k' \<noteq> pageContentRefs st k' \<longrightarrow>
      localEditedRef st k' \<noteq> Some True) \<and>
   (pageContentRefs st (m, idx) \<noteq> None \<longrightarrow>
      localEditedRef (user_edit m idx html st) (m, idx) = Some True) \<and>
   (fst (handleSave m idx (Resolved doc) st) \<noteq> None \<longrightarrow>
      localEditedRef (state_of (snd (handleSave m idx (Resolved doc) st))) (m, idx) = Some True) \<and>
   (populateEditorsFromDocument readback (Some d) st = Returned st' \<and>
    i < length (or_nil (region_array m' d)) \<and> or_nil (region_array m' d) ! i = Obj r \<and>
    pageContentRefs st (m', i) \<noteq> None \<and> localEditedRef st (m', i) \<noteq> Some True \<longrightarrow>
      pageContentRefs st' (m', i) = Some (readback (or_empty (content r))))"
proof (intro conjI impI)
  assume "localEditedRef st k = Some True"
  then show "pageContentRefs (repopulate readback docs st) k = pageContentRefs st k"
    and "localEditedRef (repopulate readback docs st) k = Some True"
    by (simp_all add: repopulate_dirty)
next
  assume changed: "pageContentRefs (repopulate readback docs st) k' \<noteq> pageContentRefs st k'"
  show "localEditedRef st k' \<noteq> Some True"
  proof
    assume "localEditedRef st k' = Some True"
    then have "pageContentRefs (repopulate readback docs st) k' = pageContentRefs st k'"
      by (simp add: repopulate_dirty)
    with changed show False by simp
  qed
next
  assume "pageContentRefs st (m, idx) \<noteq> None"
  then show "localEditedRef (user_edit m idx html st) (m, idx) = Some True"
    by (simp add: user_edit_marks)
next
  assume "fst (handleSave m idx (Resolved doc) st) \<noteq> None"
  then show "localEditedRef (state_of (snd (handleSave m idx (Resolved doc) st))) (m, idx) = Some True"
    by (simp add: handleSave_marks)
next
  assume "populateEditorsFromDocument readback (Some d) st = Returned st' \<and>
    i < length (or_nil (region_array m' d)) \<and> or_nil (region_array m' d) ! i = Obj r \<and>
    pageContentRefs st (m', i) \<noteq> None \<and> localEditedRef st (m', i) \<noteq> Some True"
  then show "pageContentRefs st' (m', i) = Some (readback (or_empty (content r)))"
    using populate_overwrites [of readback d st st' i m' r] by simp
qed

lemma edited_repopulated:
  "populateEditorsFromDocument as_written (Some rewritten_doc) edited =
     Returned (edited\<lparr>pageContentRefs := (pageContentRefs edited)((Section, 0) \<mapsto> ''<p>theirs</p>'')\<rparr>)"
  by (simp add: eval_defs)

theorem dirty_dominance_witness:
  "localEditedRef edited (Page, 0) = Some True \<and>
   pageContentRefs (repopulate as_written [Some intro_doc, None, Some rewritten_doc] edited) (Page, 0)
     = Some ''<p>Hi there</p>'' \<and>
   localEditedRef (repopulate as_written [Some intro_doc, None, Some rewritten_doc] edited) (Page, 0) = Some True \<and>
   pageContentRefs (repopulate as_written [Some intro_doc, None, Some rewritten_doc] edited) (Section, 0)
     \<noteq> pageContentRefs edited (Section, 0) \<and>
   localEditedRef edited (Section, 0) \<noteq> Some True \<and>
   localEditedRef (user_edit Section 0 ''<p>new</p>'' edited) (Section, 0) = Some True \<and>
   localEditedRef (state_of (snd (handleSave Section 0 (Resolved (Some intro_doc)) edited))) (Section, 0)
     = Some True \<and>
   pageContentRefs (state_of (populateEditorsFromDocument as_written (Some rewritten_doc) edited)) (Section, 0)
     = Some ''<p>theirs</p>''"
proof -
  let ?docs = "[Some intro_doc, None, Some rewritten_doc]"
  let ?st' = "edited\<lparr>pageContentRefs := (pageContentRefs edited)((Section, 0) \<mapsto> ''<p>theirs</p>'')\<rparr>"
  note inst = dirty_dominance [of edited "(Page, 0)" as_written ?docs "(Section, 0)" Section 0 "''<p>new</p>''"
      "Some intro_doc" rewritten_doc ?st' 0 Section "region_of ''Summary'' ''<p>theirs</p>''"]
  have dirty: "localEditedRef edited (Page, 0) = Some True"
    by (simp add: edited_refs)
  have changed: "pageContentRefs (repopulate as_written ?docs edited) (Section, 0) \<noteq> pageContentRefs edited (Section, 0)"
    by (simp add: eval_defs)
  have registered: "pageContentRefs edited (Section, 0) \<noteq> None"
    by (simp add: edited_refs)
  have sent: "fst (handleSave Section 0 (Resolved (Some intro_doc)) edited) \<noteq> None"
    by (simp add: eval_defs)
  have clean: "populateEditorsFromDocument as_written (Some rewritten_doc) edited = Returned ?st' \<and>
      0 < length (or_nil (region_array Section rewritten_doc)) \<and>
      or_nil (region_array Section rewritten_doc) ! 0 = Obj (region_of ''Summary'' ''<p>theirs</p>'') \<and>
      pageContentRefs edited (Section, 0) \<noteq> None \<and> localEditedRef edited (Section, 0) \<noteq> Some True"
    using edited_repopulated by (simp add: edited_refs) (simp add: rewritten_doc_def region_array_def)
  from inst dirty changed registered sent clean edited_repopulated show ?thesis
    by (simp add: edited_refs region_of_def)
qed

section \<open>Normalization\<close>

lemma js_map_length: "length (js_map f xs) = length xs"
  by (induction f xs rule: js_map.induct) simp_all

lemma js_map_nth_Obj:
  "i < length xs \<Longrightarrow> xs ! i = Obj r \<Longrightarrow> js_map f xs ! i = f (Obj r)"
proof (induction xs arbitrary: i)
  case Nil
  then show ?case by simp
next
  case (Cons x xs)
  show ?case
  proof (cases i)
    case 0
    with Cons.prems show ?thesis by simp
  next
    case (Suc n)
    with Cons.prems Cons.IH [of n] show ?thesis by (cases x) simp_all
  qed
qed

lemma js_map_normalize_idem:
  "js_map (\<lambda>p. normalizeShape p m) (js_map (\<lambda>p. normalizeShape p m) xs) =
   js_map (\<lambda>p. normalizeShape p m) xs"
proof (induction xs)
  case Nil
  then show ?case by simp
next
  case (Cons x xs)
  then show ?case
    by (cases x; cases m) (simp_all add: Let_def)
qed

lemma normalizeShape_page:
  "normalizeShape (Obj r) Page = Obj (r\<lparr>layout := (if truthy (layout r) then layout r else Str ''text'')\<rparr>)"
  by (simp add: Let_def)

lemma normalizeShape_section:
  "normalizeShape (Obj r) Section = Obj (r\<lparr>type := (if truthy (type r) then type r else Str ''text'')\<rparr>)"
  by (simp add: Let_def)

lemma normalizeDocument_pages:
  "pages (normalizeDocument d) = Some (js_map (\<lambda>p. normalizeShape p Page) (pages_of d))"
  by (cases d) simp_all

lemma normalizeDocument_sections:
  "sections (normalizeDocument d) = Some (js_map (\<lambda>s. normalizeShape s Section) (sections_of d))"
  by (cases d) simp_all

text \<open>
  C6, normalization is idempotent and total. For every input, a missing document and
  missing arrays included, normalizing the result again changes nothing; the result has
  both arrays, as long as the input's; a page that is an object comes out with its layout,
  or with the layout \<^verbatim>\<open>"text"\<close> when it had none, and a section with its type, or with
  the type \<^verbatim>\<open>"text"\<close>.
\<close>

theorem normalize_idempotent_total:
  "normalizeDocument (Some (normalizeDocument d)) = normalizeDocument d \<and>
   (\<exists>ps ss. pages (normalizeDocument d) = Some ps \<and> sections (normalizeDocument d) = Some ss \<and>
      length ps = length (pages_of d) \<and> length ss = length (sections_of d) \<and>
      (\<forall>i r. i < length ps \<and> pages_of d ! i = Obj r \<longrightarrow>
         ps ! i = Obj (r\<lparr>layout := (if truthy (layout r) then layout r else Str ''text'')\<rparr>)) \<and>
      (\<forall>i r. i < length ss \<and> sections_of d ! i = Obj r \<longrightarrow>
         ss ! i = Obj (r\<lparr>type := (if truthy (type r) then type r else Str ''text'')\<rparr>)))"
proof
  show "normalizeDocument (Some (normalizeDocument d)) = normalizeDocument d"
    by (cases d) (simp_all add: js_map_normalize_idem)
next
  let ?ps = "js_map (\<lambda>p. normalizeShape p Page) (pages_of d)"
  let ?ss = "js_map (\<lambda>s. normalizeShape s Section) (sections_of d)"
  have "pages (normalizeDocument d) = Some ?ps" "sections (normalizeDocument d) = Some ?ss"
    by (rule normalizeDocument_pages, rule normalizeDocument_sections)
  moreover have "length ?ps = length (pages_of d)" "length ?ss = length (sections_of d)"
    by (simp_all add: js_map_length)
  moreover have "\<forall>i r. i < length ?ps \<and> pages_of d ! i = Obj r \<longrightarrow>
      ?ps ! i = Obj (r\<lparr>layout := (if truthy (layout r) then layout r else Str ''text'')\<rparr>)"
    using normalizeShape_page by (simp add: js_map_length js_map_nth_Obj del: normalizeShape.simps)
  moreover have "\<forall>i r. i < length ?ss \<and> sections_of d ! i = Obj r \<longrightarrow>
      ?ss ! i = Obj (r\<lparr>type := (if truthy (type r) then type r else Str ''text'')\<rparr>)"
    using normalizeShape_section by (simp add: js_map_length js_map_nth_Obj del: normalizeShape.simps)
  ultimately show "\<exists>ps ss. pages (normalizeDocument d) = Some ps \<and> sections (normalizeDocument d) = Some ss \<and>
      length ps = length (pages_of d) \<and> length ss = length (sections_of d) \<and>
      (\<forall>i r. i < length ps \<and> pages_of d ! i = Obj r \<longrightarrow>
         ps ! i = Obj (r\<lparr>layout := (if truthy (layout r) then layout r else Str ''text'')\<rparr>)) \<and>
      (\<forall>i r. i < length ss \<and> sections_of d ! i = Obj r \<longrightarrow>
         ss ! i = Obj (r\<lparr>type := (if truthy (type r) then type r else Str ''text'')\<rparr>))"
    by blast
qed

theorem normalize_idempotent_total_witness:
  "normalizeDocument (Some (normalizeDocument (Some bare_doc))) = normalizeDocument (Some bare_doc) \<and>
   pages (normalizeDocument (Some bare_doc)) = Some [] \<and>
   (\<exists>ss. sections (normalizeDocument (Some bare_doc)) = Some ss \<and> length ss = 2 \<and>
      ss ! 0 = Obj \<lparr>name = Str ''Summary'', content = Str ''<p>old</p>'', type = Str ''text'',
                      layout = Undefined\<rparr>)"
proof -
  from normalize_idempotent_total [of "Some bare_doc"] obtain ps ss
    where idem: "normalizeDocument (Some (normalizeDocument (Some bare_doc))) = normalizeDocument (Some bare_doc)"
      and ps: "pages (normalizeDocument (Some bare_doc)) = Some ps" "length ps = length (pages_of (Some bare_doc))"
      and ss: "sections (normalizeDocument (Some bare_doc)) = Some ss"
        "length ss = length (sections_of (Some bare_doc))"
      and sec: "\<forall>i r. i < length ss \<and> sections_of (Some bare_doc) ! i = Obj r \<longrightarrow>
         ss ! i = Obj (r\<lparr>type := (if truthy (type r) then type r else Str ''text'')\<rparr>)"
    by blast
  from ps have "pages (normalizeDocument (Some bare_doc)) = Some []"
    by (simp add: bare_doc_def)
  moreover from ss have len: "length ss = 2"
    by (simp add: bare_doc_def)
  moreover have "0 < length ss \<and> sections_of (Some bare_doc) ! 0 = Obj (region_of ''Summary'' ''<p>old</p>'')"
    using len by (simp add: bare_doc_def)
  with sec have "ss ! 0 = Obj ((region_of ''Summary'' ''<p>old</p>'')\<lparr>type :=
      (if truthy (type (region_of ''Summary'' ''<p>old</p>'')) then type (region_of ''Summary'' ''<p>old</p>'')
       else Str ''text'')\<rparr>)"
    by blast
  then have "ss ! 0 = Obj \<lparr>name = Str ''Summary'', content = Str ''<p>old</p>'', type = Str ''text'',
                      layout = Undefined\<rparr>"
    by (simp add: region_of_def)
  ultimately show ?thesis using idem ss(1) by simp
qed

section \<open>A save the server rejects\<close>

text \<open>
  C7, failure atomicity of a save. Whatever the key and the state, when the server rejects
  the request the document, every edited flag, every registered element and the pending
  timers are what they were; and when a request was sent, the handler returns with exactly
  the error snackbar changed.
\<close>

theorem save_failure_atomic:
  "documentData (state_of (snd (handleSave m idx (Rejected detail) st))) = documentData st \<and>
   localEditedRef (state_of (snd (handleSave m idx (Rejected detail) st))) = localEditedRef st \<and>
   pageContentRefs (state_of (snd (handleSave m idx (Rejected detail) st))) = pageContentRefs st \<and>
   timers (state_of (snd (handleSave m idx (Rejected detail) st))) = timers st \<and>
   (fst (handleSave m idx (Rejected detail) st) \<noteq> None \<longrightarrow>
      snd (handleSave m idx (Rejected detail) st) =
        Returned (st\<lparr>snack := \<lparr>is_open = True, message = ''Failed to save '' @ mode_name m,
                                 severity = ''error''\<rparr>\<rparr>))"
  by (simp add: handleSave_def save_settled_def save_failed_def split: option.splits slot.splits)

theorem save_failure_atomic_witness:
  "fst (handleSave Page 0 (Rejected Undefined) edited) =
     Some \<lparr>save_mode = Page, item_name = Str ''Intro'', save_content = ''<p>Hi there</p>''\<rparr> \<and>
   snd (handleSave Page 0 (Rejected Undefined) edited) =
     Returned (edited\<lparr>snack := \<lparr>is_open = True, message = ''Failed to save page'',
                                   severity = ''error''\<rparr>\<rparr>) \<and>
   localEditedRef (state_of (snd (handleSave Page 0 (Rejected Undefined) edited))) = localEditedRef edited \<and>
   localEditedRef edited (Page, 0) = Some True"
proof -
  have sent: "fst (handleSave Page 0 (Rejected Undefined) edited) =
     Some \<lparr>save_mode = Page, item_name = Str ''Intro'', save_content = ''<p>Hi there</p>''\<rparr>"
    by (simp add: eval_defs)
  then have "fst (handleSave Page 0 (Rejected Undefined) edited) \<noteq> None"
    by simp
  with save_failure_atomic [of Page 0 Undefined edited] sent show ?thesis
    by (simp add: edited_refs)
qed

section \<open>Assembly\<close>

lemma region_html_length: "length (region_html st m xs j) = length xs"
  by (induction st m xs j rule: region_html.induct) simp_all

lemma region_html_nth:
  "i < length xs \<Longrightarrow>
   region_html st m xs j ! i = (if xs ! i = Hole then None else Some (read_html st (m, j + i)))"
proof (induction xs arbitrary: i j)
  case Nil
  then show ?case by simp
next
  case (Cons x xs)
  show ?case
  proof (cases i)
    case 0
    then show ?thesis by (cases x) simp_all
  next
    case (Suc n)
    with Cons.prems Cons.IH [of n "Suc j"] show ?thesis by (cases x) simp_all
  qed
qed

lemma region_html_map:
  "map join_entry (region_html st m xs 0) =
   map (\<lambda>i. if xs ! i = Hole then [] else read_html st (m, i)) [0..<length xs]"
  by (rule nth_equalityI) (simp_all add: region_html_length region_html_nth)

lemma joined_eq:
  "joined st =
     concat (map (\<lambda>i. if pages_of (documentData st) ! i = Hole then [] else read_html st (Page, i))
       [0..<length (pages_of (documentData st))]) @
     concat (map (\<lambda>i. if sections_of (documentData st) ! i = Hole then [] else read_html st (Section, i))
       [0..<length (sections_of (documentData st))])"
  by (simp add: joined_def region_html_map)


lemma ref_callback_frame:
  "documentData (ref_callback readback item m idx el st) = documentData st"
  "localEditedRef (ref_callback readback item m idx el st) = localEditedRef st"
  by (simp_all add: ref_callback_def)








section \<open>The stored document keeps its arrays\<close>

lemma arrays_present_normalized:
  "arrays_present (st\<lparr>documentData := Some (normalizeDocument doc)\<rparr>)"
  by (cases doc) (simp_all add: arrays_present_def)

lemma arrays_present_mounted: "arrays_present mounted"
  by (simp add: arrays_present_def mounted_def)

lemma forEach_documentData:
  assumes "\<And>x i (s :: viewer). documentData (state_of (cb x i s)) = documentData s"
  shows "documentData (state_of (forEach xs i cb st)) = documentData st"
  by (rule forEach_invariant [where P = "\<lambda>s::viewer. documentData s = documentData st"])
     (simp_all add: assms)

lemma resetRefs_documentData: "documentData (resetRefs doc st) = documentData st"
proof -
  let ?s0 = "st\<lparr>localEditedRef := Map.empty, pageContentRefs := Map.empty\<rparr>"
  have cb: "documentData (state_of (reset_cb m x i s)) = documentData s" for m x i s
    by (simp add: reset_cb_def)
  have first: "documentData (state_of (forEach (pages_of doc) 0 (reset_cb Page) ?s0)) = documentData st"
    using forEach_documentData [of "reset_cb Page" "pages_of doc" 0 ?s0] cb by simp
  show ?thesis
  proof (cases "forEach (pages_of doc) 0 (reset_cb Page) ?s0")
    case (Returned s)
    with first forEach_documentData [of "reset_cb Section" "sections_of doc" 0 s] cb show ?thesis
      by (simp add: resetRefs_def)
  next
    case (Threw e s)
    with first show ?thesis by (simp add: resetRefs_def)
  qed
qed

lemma arrays_present_cong:
  "documentData st' = documentData st \<Longrightarrow> arrays_present st' = arrays_present st"
  by (simp add: arrays_present_def)

lemma populate_documentData:
  "documentData (state_of (populateEditorsFromDocument readback doc st)) = documentData st"
proof (cases doc)
  case None
  then show ?thesis by simp
next
  case (Some d)
  have cb: "documentData (state_of (populate_cb readback m x i s)) = documentData s" for m x i s
    by (simp add: populate_cb_def split: option.splits slot.splits)
  have first: "documentData (state_of (forEach (or_nil (pages d)) 0 (populate_cb readback Page) st)) = documentData st"
    using forEach_documentData [of "populate_cb readback Page"] cb by simp
  show ?thesis
  proof (cases "forEach (or_nil (pages d)) 0 (populate_cb readback Page) st")
    case (Returned s)
    with first forEach_documentData [of "populate_cb readback Section" "or_nil (sections d)" 0 s] cb Some
    show ?thesis by simp
  next
    case (Threw e s)
    with first Some show ?thesis by simp
  qed
qed

lemma renderEditors_documentData:
  "documentData (state_of (renderEditors readback els st)) = documentData st"
proof -
  have cb: "documentData (state_of (render_cb readback els m x i s)) = documentData s" for m x i s
    by (simp add: render_cb_def ref_callback_frame split: slot.splits)
  have first: "documentData (state_of (forEach (pages_of (documentData st)) 0 (render_cb readback els Page) st))
      = documentData st"
    using forEach_documentData [of "render_cb readback els Page"] cb by simp
  show ?thesis
  proof (cases "forEach (pages_of (documentData st)) 0 (render_cb readback els Page) st")
    case (Returned s)
    with first forEach_documentData [of "render_cb readback els Section" "sections_of (documentData st)" 0 s] cb
    show ?thesis by (simp add: renderEditors_def)
  next
    case (Threw e s)
    with first show ?thesis by (simp add: renderEditors_def)
  qed
qed

lemma fire_timer_documentData:
  "documentData (state_of (fire_timer readback st)) = documentData st"
proof (cases "timers st")
  case Nil
  then show ?thesis by (simp add: fire_timer_def)
next
  case (Cons doc rest)
  then have "fire_timer readback st = populateEditorsFromDocument readback (Some doc) (st\<lparr>timers := rest\<rparr>)"
    by (simp add: fire_timer_def)
  with populate_documentData [of readback "Some doc" "st\<lparr>timers := rest\<rparr>"] show ?thesis
    by simp
qed

text \<open>
  Every handler keeps the stored document in shape, so \<open>arrays_present\<close> holds in every
  state the component reaches from \<open>mounted\<close>.
\<close>

lemma arrays_present_invariant:
  assumes "arrays_present st"
  shows "arrays_present (fetchDocument res st)"
    and "arrays_present (state_of (snd (handleSave m idx res st)))"
    and "arrays_present (handleRegenerateDocument_begin st)"
    and "arrays_present (handleRegenerateDocument_end res st)"
    and "arrays_present (user_edit m idx html st)"
    and "arrays_present (state_of (populateEditorsFromDocument readback doc st))"
    and "arrays_present (state_of (fire_timer readback st))"
    and "arrays_present (state_of (renderEditors readback els st))"
    and "arrays_present (state_of (handleSearch mark search st))"
    and "arrays_present (handleOpenPreview st)"
    and "arrays_present (snd (handleDownload export st))"
proof -
  show "arrays_present (fetchDocument res st)"
    using assms
    by (cases res)
       (simp_all add: fetchDocument_def fetchDocument_begin_def fetchDocument_end_def Let_def
          arrays_present_def resetRefs_documentData normalizeDocument_pages normalizeDocument_sections)
  show "arrays_present (state_of (snd (handleSave m idx res st)))"
    using assms
    by (cases res)
       (auto simp: handleSave_def save_settled_def Let_def arrays_present_def
          normalizeDocument_pages normalizeDocument_sections split: option.splits slot.splits)
  show "arrays_present (handleRegenerateDocument_begin st)"
    using assms by (simp add: handleRegenerateDocument_begin_def arrays_present_def)
  show "arrays_present (handleRegenerateDocument_end res st)"
    using assms
    by (cases res)
       (simp_all add: handleRegenerateDocument_end_def Let_def arrays_present_def
          resetRefs_documentData normalizeDocument_pages normalizeDocument_sections)
  show "arrays_present (user_edit m idx html st)"
    using assms
    by (auto simp: user_edit_def onInput_def Let_def arrays_present_def split: option.splits)
  show "arrays_present (state_of (populateEditorsFromDocument readback doc st))"
    using assms by (simp add: arrays_present_cong [OF populate_documentData])
  show "arrays_present (state_of (fire_timer readback st))"
    using assms by (simp add: arrays_present_cong [OF fire_timer_documentData])
  show "arrays_present (state_of (renderEditors readback els st))"
    using assms by (simp add: arrays_present_cong [OF renderEditors_documentData])
  show "arrays_present (state_of (handleSearch mark search st))"
    using assms
    by (auto simp: handleSearch_def arrays_present_def split: option.splits sum.splits)
  show "arrays_present (handleOpenPreview st)"
    using assms by (simp add: handleOpenPreview_def arrays_present_def)
  show "arrays_present (snd (handleDownload export st))"
    using assms by (cases export) (simp_all add: handleDownload_def Let_def arrays_present_def)
qed

section \<open>Regions without a registered element\<close>

text \<open>
  C10, reading an unregistered region never fails. For a key with no registered element
  the entry both handlers compute is the empty string; the preview opens with the
  assembled page and leaves the snackbar alone; the download sends its request with the
  assembled page and, once the service answers, announces the file; and \<open>handleSave\<close>
  sends nothing and changes nothing, returning normally whenever the stored document has
  its arrays.
\<close>

theorem unregistered_region_reads_empty:
  "pageContentRefs st (m, idx) = None \<longrightarrow>
     read_html st (m, idx) = [] \<and>
     (idx < length xs \<and> xs ! idx \<noteq> Hole \<longrightarrow> region_html st m xs 0 ! idx = Some []) \<and>
     openPreview (handleOpenPreview st) \<and>
     previewUrl (handleOpenPreview st) = Some (styledHtml (fontFamily st) (fontSize st) (joined st)) \<and>
     snack (handleOpenPreview st) = snack st \<and>
     htmlContent (fst (handleDownload res st)) = styledHtml (fontFamily st) (fontSize st) (joined st) \<and>
     message (snack (snd (handleDownload (Resolved ()) st))) =
       ''Downloaded '' @ export_title (export_payload st) @ ''.docx'' \<and>
     fst (handleSave m idx answer st) = None \<and>
     state_of (snd (handleSave m idx answer st)) = st \<and>
     (arrays_present st \<longrightarrow> handleSave m idx answer st = (None, Returned st))"
proof (intro impI conjI)
  assume none: "pageContentRefs st (m, idx) = None"
  then show "read_html st (m, idx) = []"
    by (simp add: read_html_def)
  show "openPreview (handleOpenPreview st)"
    and "previewUrl (handleOpenPreview st) = Some (styledHtml (fontFamily st) (fontSize st) (joined st))"
    and "snack (handleOpenPreview st) = snack st"
    by (simp_all add: handleOpenPreview_def)
  show "htmlContent (fst (handleDownload res st)) = styledHtml (fontFamily st) (fontSize st) (joined st)"
    by (simp add: handleDownload_def export_payload_def Let_def)
  show "message (snack (snd (handleDownload (Resolved ()) st))) =
       ''Downloaded '' @ export_title (export_payload st) @ ''.docx''"
    by (simp add: handleDownload_def Let_def)
  from none show "fst (handleSave m idx answer st) = None"
    and "state_of (snd (handleSave m idx answer st)) = st"
    by (simp_all add: handleSave_def split: option.splits)
  {
    assume "arrays_present st"
    with none show "handleSave m idx answer st = (None, Returned st)"
      by (auto simp: handleSave_def arrays_present_def region_array_def split: option.splits)
  }
  {
    assume "idx < length xs \<and> xs ! idx \<noteq> Hole"
    with none show "region_html st m xs 0 ! idx = Some []"
      by (simp add: region_html_nth read_html_def)
  }
qed

theorem unregistered_region_reads_empty_witness:
  "pageContentRefs loaded (Page, 0) = None \<and>
   region_html loaded Page (pages_of (documentData loaded)) 0 ! 0 = Some [] \<and>
   joined loaded = [] \<and>
   openPreview (handleOpenPreview loaded) \<and>
   message (snack (snd (handleDownload (Resolved ()) loaded))) = ''Downloaded Report.docx'' \<and>
   handleSave Page 0 (Resolved (Some rewritten_doc)) loaded = (None, Returned loaded)"
proof -
  have none: "pageContentRefs loaded (Page, 0) = None"
    by (simp add: loaded_def eval_defs)
  have entry: "0 < length (pages_of (documentData loaded)) \<and> pages_of (documentData loaded) ! 0 \<noteq> Hole"
    by (simp add: loaded_def eval_defs)
  have present: "arrays_present loaded"
    unfolding loaded_def by (rule arrays_present_invariant (1) [OF arrays_present_mounted])
  have empty_body: "joined loaded = []"
    by (simp add: joined_eq read_html_def loaded_def eval_defs)
  have title: "export_title (export_payload loaded) = ''Report''"
    by (simp add: export_payload_def loaded_def eval_defs)
  from unregistered_region_reads_empty [of loaded Page 0 "pages_of (documentData loaded)" "Resolved ()"
      "Resolved (Some rewritten_doc)"] none entry present
  have "region_html loaded Page (pages_of (documentData loaded)) 0 ! 0 = Some []"
    and "openPreview (handleOpenPreview loaded)"
    and "message (snack (snd (handleDownload (Resolved ()) loaded))) =
       ''Downloaded '' @ export_title (export_payload loaded) @ ''.docx''"
    and "handleSave Page 0 (Resolved (Some rewritten_doc)) loaded = (None, Returned loaded)"
    by blast+
  with none empty_body title show ?thesis by simp
qed

section \<open>Reset, render, repopulate readback\<close>

lemma forEach_returns:
  assumes "\<And>x i s. x \<in> set xs \<Longrightarrow> x \<noteq> Hole \<Longrightarrow> \<exists>s'. cb x i s = Returned s'"
  shows "\<exists>s'. forEach xs j cb st = Returned s'"
  using assms
proof (induction xs arbitrary: j st)
  case Nil
  then show ?case by simp
next
  case (Cons x xs)
  have rest: "\<exists>s'. forEach xs (Suc j) cb s = Returned s'" for s
    using Cons.prems by (intro Cons.IH) simp
  show ?case
  proof (cases "x = Hole")
    case True
    with rest show ?thesis by simp
  next
    case False
    with Cons.prems [of x j st] obtain s where "cb x j st = Returned s" by auto
    with False rest [of s] show ?thesis by (cases x) simp_all
  qed
qed

lemma resetRefs_clean:
  "pageContentRefs (resetRefs doc st) = Map.empty \<and>
   (\<forall>k. localEditedRef (resetRefs doc st) k \<noteq> Some True) \<and>
   loading (resetRefs doc st) = loading st"
proof -
  let ?P = "\<lambda>s::viewer. pageContentRefs s = Map.empty \<and> (\<forall>k. localEditedRef s k \<noteq> Some True) \<and>
      loading s = loading st"
  let ?s0 = "st\<lparr>localEditedRef := Map.empty, pageContentRefs := Map.empty\<rparr>"
  have cb: "?P s \<Longrightarrow> ?P (state_of (reset_cb m x i s))" for m x i s
    by (simp add: reset_cb_def)
  have "?P ?s0" by simp
  then have first: "?P (state_of (forEach (pages_of doc) 0 (reset_cb Page) ?s0))"
    using cb by (intro forEach_invariant [where P = ?P]) blast+
  show ?thesis
  proof (cases "forEach (pages_of doc) 0 (reset_cb Page) ?s0")
    case (Returned s)
    with first have "?P s" by simp
    then have "?P (state_of (forEach (sections_of doc) 0 (reset_cb Section) s))"
      using cb by (intro forEach_invariant [where P = ?P]) blast+
    with Returned show ?thesis by (simp add: resetRefs_def)
  next
    case (Threw e s)
    with first show ?thesis by (simp add: resetRefs_def)
  qed
qed

lemma render_cb_flags:
  "localEditedRef (state_of (render_cb readback els m x i s)) = localEditedRef s"
  by (simp add: render_cb_def ref_callback_frame split: slot.splits)

lemma render_cb_keeps:
  "pageContentRefs s k \<noteq> None \<Longrightarrow> pageContentRefs (state_of (render_cb readback els m x i s)) k \<noteq> None"
  by (simp add: render_cb_def ref_callback_def split: slot.splits)

lemma forEach_render_registers:
  "i < length xs \<Longrightarrow> xs ! i = Obj r \<Longrightarrow>
   pageContentRefs (state_of (forEach xs j (render_cb readback els m) st)) (m, j + i) \<noteq> None"
proof (induction xs arbitrary: i j st)
  case Nil
  then show ?case by simp
next
  case (Cons x xs)
  show ?case
  proof (cases i)
    case 0
    with Cons.prems have x: "x = Obj r" by simp
    let ?s = "ref_callback readback r m j (els (m, j)) st"
    have "pageContentRefs ?s (m, j) \<noteq> None"
      by (simp add: ref_callback_def)
    then have "pageContentRefs (state_of (forEach xs (Suc j) (render_cb readback els m) ?s)) (m, j) \<noteq> None"
      by (intro forEach_invariant [where P = "\<lambda>s::viewer. pageContentRefs s (m, j) \<noteq> None"])
         (simp_all add: render_cb_keeps)
    moreover have "render_cb readback els m x j st = Returned ?s"
      using x by (simp add: render_cb_def)
    ultimately show ?thesis using x 0 by simp
  next
    case (Suc n)
    with Cons.prems have n: "n < length xs" "xs ! n = Obj r" by simp_all
    obtain s where s: "render_cb readback els m x j st = Returned s"
      by (cases x) (simp_all add: render_cb_def)
    from Cons.IH [OF n, of "Suc j"] Suc s show ?thesis
      by (cases x) simp_all
  qed
qed

lemma renderEditors_registers:
  assumes "\<not> loading st" and "Nullish \<notin> set (pages_of (documentData st))"
    and "Nullish \<notin> set (sections_of (documentData st))"
  shows "\<exists>st'. renderEditors readback els st = Returned st' \<and> localEditedRef st' = localEditedRef st \<and>
           documentData st' = documentData st \<and>
           (\<forall>i r. i < length (pages_of (documentData st)) \<and> pages_of (documentData st) ! i = Obj r \<longrightarrow>
              pageContentRefs st' (Page, i) \<noteq> None) \<and>
           (\<forall>i r. i < length (sections_of (documentData st)) \<and> sections_of (documentData st) ! i = Obj r \<longrightarrow>
              pageContentRefs st' (Section, i) \<noteq> None)"
proof -
  let ?ps = "pages_of (documentData st)" and ?ss = "sections_of (documentData st)"
  have ret: "\<exists>s'. render_cb readback els m x i s = Returned s'" for m x i s
    by (cases x) (simp_all add: render_cb_def)
  obtain s1 where s1: "forEach ?ps 0 (render_cb readback els Page) st = Returned s1"
    using forEach_returns [of ?ps "render_cb readback els Page" 0 st] ret by blast
  obtain s2 where s2: "forEach ?ss 0 (render_cb readback els Section) s1 = Returned s2"
    using forEach_returns [of ?ss "render_cb readback els Section" 0 s1] ret by blast
  from assms s1 s2 have run: "renderEditors readback els st = Returned s2"
    by (simp add: renderEditors_def)
  have flags: "localEditedRef s2 = localEditedRef st"
  proof -
    have "localEditedRef (state_of (forEach ?ps 0 (render_cb readback els Page) st)) = localEditedRef st"
      by (rule forEach_invariant [where P = "\<lambda>s::viewer. localEditedRef s = localEditedRef st"])
         (simp_all add: render_cb_flags)
    moreover have "localEditedRef (state_of (forEach ?ss 0 (render_cb readback els Section) s1)) = localEditedRef s1"
      by (rule forEach_invariant [where P = "\<lambda>s::viewer. localEditedRef s = localEditedRef s1"])
         (simp_all add: render_cb_flags)
    ultimately show ?thesis using s1 s2 by simp
  qed
  have doc: "documentData s2 = documentData st"
    using renderEditors_documentData [of readback els st] run by simp
  have pages: "pageContentRefs s2 (Page, i) \<noteq> None" if "i < length ?ps" "?ps ! i = Obj r" for i r
  proof -
    from forEach_render_registers [OF that, of 0 readback els Page st] s1
    have "pageContentRefs s1 (Page, i) \<noteq> None" by simp
    then have "pageContentRefs (state_of (forEach ?ss 0 (render_cb readback els Section) s1)) (Page, i) \<noteq> None"
      by (intro forEach_invariant [where P = "\<lambda>s::viewer. pageContentRefs s (Page, i) \<noteq> None"])
         (simp_all add: render_cb_keeps)
    with s2 show ?thesis by simp
  qed
  have sections: "pageContentRefs s2 (Section, i) \<noteq> None" if "i < length ?ss" "?ss ! i = Obj r" for i r
    using forEach_render_registers [OF that, of 0 readback els Section s1] s2 by simp
  from run flags doc pages sections show ?thesis by blast
qed

lemma populate_returns:
  assumes "Nullish \<notin> set (or_nil (pages d))" and "Nullish \<notin> set (or_nil (sections d))"
  shows "\<exists>st'. populateEditorsFromDocument readback (Some d) st = Returned st'"
proof -
  have ret: "x \<noteq> Nullish \<Longrightarrow> x \<noteq> Hole \<Longrightarrow> \<exists>s'. populate_cb readback m x i s = Returned s'" for m x i s
    by (cases x) (simp_all add: populate_cb_def split: option.splits)
  obtain s1 where s1: "forEach (or_nil (pages d)) 0 (populate_cb readback Page) st = Returned s1"
    using forEach_returns [of "or_nil (pages d)" "populate_cb readback Page" 0 st] ret assms(1) by metis
  obtain s2 where "forEach (or_nil (sections d)) 0 (populate_cb readback Section) s1 = Returned s2"
    using forEach_returns [of "or_nil (sections d)" "populate_cb readback Section" 0 s1] ret assms(2) by metis
  with s1 show ?thesis by simp
qed




text \<open>
  The scenario of the specification: the first page is edited and not saved, the whole
  document is regenerated, the editors are rendered anew and the timer fires. The page
  then shows the regenerated markup.
\<close>

lemma regenerate_scenario:
  "pageContentRefs edited (Page, 0) = Some ''<p>Hi there</p>'' \<and>
   pageContentRefs regenerated (Page, 0) = Some ''<p>Rewritten</p>'' \<and>
   localEditedRef regenerated (Page, 0) = Some False"
  by (simp add: regenerated_def handleRegenerateDocument_begin_def handleRegenerateDocument_end_def
      eval_defs)

section \<open>After a save\<close>

lemma fire_timer_dirty:
  assumes "localEditedRef st k = Some True"
  shows "pageContentRefs (state_of (fire_timer readback st)) k = pageContentRefs st k"
proof (cases "timers st")
  case Nil
  then show ?thesis by (simp add: fire_timer_def)
next
  case (Cons doc rest)
  then have "fire_timer readback st = populateEditorsFromDocument readback (Some doc) (st\<lparr>timers := rest\<rparr>)"
    by (simp add: fire_timer_def)
  with populate_dirty [of "st\<lparr>timers := rest\<rparr>" k readback "Some doc"] assms show ?thesis
    by simp
qed

lemma fetchDocument_resets:
  "localEditedRef (fetchDocument (Resolved doc) st) k \<noteq> Some True \<and>
   pageContentRefs (fetchDocument (Resolved doc) st) k = None"
proof -
  let ?s = "resetRefs (Some (normalizeDocument doc))
      (st\<lparr>loading := True, documentData := Some (normalizeDocument doc)\<rparr>)"
  from resetRefs_clean [of "Some (normalizeDocument doc)"
      "st\<lparr>loading := True, documentData := Some (normalizeDocument doc)\<rparr>"]
  have "pageContentRefs ?s k = None" and "localEditedRef ?s k \<noteq> Some True"
    by (simp, blast)
  then show ?thesis
    by (simp add: fetchDocument_def fetchDocument_begin_def fetchDocument_end_def Let_def)
qed

lemma forEach_preserves:
  assumes "\<And>x i (s :: viewer). f (state_of (cb x i s)) = f s"
  shows "f (state_of (forEach xs i cb st)) = f st"
  by (rule forEach_invariant [where P = "\<lambda>s::viewer. f s = f st"]) (simp_all add: assms)

lemma and_then_preserves:
  assumes "\<And>s. f (state_of (g s)) = f s"
  shows "f (state_of (and_then r g)) = f (state_of r)"
  by (cases r) (simp_all add: assms)

lemma populate_timers:
  "timers (state_of (populateEditorsFromDocument readback doc st)) = timers st"
proof (cases doc)
  case None
  then show ?thesis by simp
next
  case (Some d)
  have cb: "timers (state_of (populate_cb readback m x i s)) = timers s" for m x i s
    by (simp add: populate_cb_def split: option.splits slot.splits)
  have "timers (state_of (and_then (forEach (or_nil (pages d)) 0 (populate_cb readback Page) st)
        (forEach (or_nil (sections d)) 0 (populate_cb readback Section)))) =
      timers (state_of (forEach (or_nil (pages d)) 0 (populate_cb readback Page) st))"
    by (rule and_then_preserves) (rule forEach_preserves, rule cb)
  also have "\<dots> = timers st"
    by (rule forEach_preserves) (rule cb)
  finally show ?thesis using Some by simp
qed

lemma resetRefs_timers: "timers (resetRefs doc st) = timers st"
proof -
  let ?s0 = "st\<lparr>localEditedRef := Map.empty, pageContentRefs := Map.empty\<rparr>"
  have cb: "timers (state_of (reset_cb m x i s)) = timers s" for m x i s
    by (simp add: reset_cb_def)
  have "timers (resetRefs doc st) = timers (state_of (forEach (pages_of doc) 0 (reset_cb Page) ?s0))"
    unfolding resetRefs_def by (rule and_then_preserves) (rule forEach_preserves, rule cb)
  also have "\<dots> = timers ?s0"
    by (rule forEach_preserves) (rule cb)
  finally show ?thesis by simp
qed

lemma renderEditors_timers: "timers (state_of (renderEditors readback els st)) = timers st"
proof -
  have cb: "timers (state_of (render_cb readback els m x i s)) = timers s" for m x i s
    by (simp add: render_cb_def ref_callback_def split: slot.splits)
  have "timers (state_of (and_then (forEach (pages_of (documentData st)) 0 (render_cb readback els Page) st)
        (forEach (sections_of (documentData st)) 0 (render_cb readback els Section)))) =
      timers (state_of (forEach (pages_of (documentData st)) 0 (render_cb readback els Page) st))"
    by (rule and_then_preserves) (rule forEach_preserves, rule cb)
  also have "\<dots> = timers st"
    by (rule forEach_preserves) (rule cb)
  finally show ?thesis by (simp add: renderEditors_def)
qed

lemma populate_cb_keeps:
  "pageContentRefs s k \<noteq> None \<Longrightarrow> pageContentRefs (state_of (populate_cb readback m x i s)) k \<noteq> None"
  by (auto simp: populate_cb_def split: option.splits slot.splits)

lemma populate_keeps:
  assumes "pageContentRefs st k \<noteq> None"
  shows "pageContentRefs (state_of (populateEditorsFromDocument readback doc st)) k \<noteq> None"
proof (cases doc)
  case None
  with assms show ?thesis by simp
next
  case (Some d)
  let ?P = "\<lambda>s::viewer. pageContentRefs s k \<noteq> None"
  have first: "?P (state_of (forEach (or_nil (pages d)) 0 (populate_cb readback Page) st))"
    using assms by (intro forEach_invariant [where P = ?P]) (simp_all add: populate_cb_keeps)
  show ?thesis
  proof (cases "forEach (or_nil (pages d)) 0 (populate_cb readback Page) st")
    case (Returned s)
    with first have "?P s" by simp
    then have "?P (state_of (forEach (or_nil (sections d)) 0 (populate_cb readback Section) s))"
      by (intro forEach_invariant [where P = ?P]) (simp_all add: populate_cb_keeps)
    with Returned Some show ?thesis by simp
  next
    case (Threw e s)
    with first Some show ?thesis by simp
  qed
qed

lemma fire_timer_timers: "timers (state_of (fire_timer readback st)) = tl (timers st)"
proof (cases "timers st")
  case Nil
  then show ?thesis by (simp add: fire_timer_def)
next
  case (Cons doc rest)
  then have "fire_timer readback st = populateEditorsFromDocument readback (Some doc) (st\<lparr>timers := rest\<rparr>)"
    by (simp add: fire_timer_def)
  with populate_timers [of readback "Some doc" "st\<lparr>timers := rest\<rparr>"] Cons show ?thesis
    by simp
qed

lemma fire_timer_flags: "localEditedRef (state_of (fire_timer readback st)) = localEditedRef st"
proof (cases "timers st")
  case Nil
  then show ?thesis by (simp add: fire_timer_def)
next
  case (Cons doc rest)
  then have "fire_timer readback st = populateEditorsFromDocument readback (Some doc) (st\<lparr>timers := rest\<rparr>)"
    by (simp add: fire_timer_def)
  with populate_flags [of readback "Some doc" "st\<lparr>timers := rest\<rparr>"] show ?thesis
    by simp
qed

lemma fire_timer_keeps:
  assumes "pageContentRefs st k \<noteq> None"
  shows "pageContentRefs (state_of (fire_timer readback st)) k \<noteq> None"
proof (cases "timers st")
  case Nil
  with assms show ?thesis by (simp add: fire_timer_def)
next
  case (Cons doc rest)
  then have eq: "fire_timer readback st = populateEditorsFromDocument readback (Some doc) (st\<lparr>timers := rest\<rparr>)"
    by (simp add: fire_timer_def)
  from assms have "pageContentRefs (st\<lparr>timers := rest\<rparr>) k \<noteq> None"
    by simp
  from populate_keeps [OF this, of readback "Some doc"] show ?thesis
    unfolding eq .
qed

lemma fire_timers_timers: "timers (fire_timers readback n st) = drop n (timers st)"
proof (induction n arbitrary: st)
  case 0
  then show ?case by simp
next
  case (Suc n)
  then show ?case by (simp add: fire_timer_timers drop_Suc)
qed

lemma fire_timers_flags: "localEditedRef (fire_timers readback n st) = localEditedRef st"
  by (induction n arbitrary: st) (simp_all add: fire_timer_flags)

lemma fire_timers_keeps:
  "pageContentRefs st k \<noteq> None \<Longrightarrow> pageContentRefs (fire_timers readback n st) k \<noteq> None"
proof (induction n arbitrary: st)
  case 0
  then show ?case by simp
next
  case (Suc n)
  from fire_timer_keeps [OF Suc.prems, of readback]
  have "pageContentRefs (fire_timers readback n (state_of (fire_timer readback st))) k \<noteq> None"
    by (rule Suc.IH)
  then show ?case by simp
qed

lemma fire_timers_last:
  "fire_timers readback (Suc n) st = state_of (fire_timer readback (fire_timers readback n st))"
  by (induction n arbitrary: st) simp_all

lemma js_map_normalize_Nullish:
  "Nullish \<in> set (js_map (\<lambda>p. normalizeShape p m) xs) \<longleftrightarrow> Nullish \<in> set xs"
proof (induction xs)
  case Nil
  then show ?case by simp
next
  case (Cons x xs)
  then show ?case by (cases x) (auto simp: Let_def)
qed

text \<open>
  What a state shows once it has been reset for the stored document \<open>d\<close>: the render
  returns, and when every pending timer has fired, the last of them being the repopulation
  from \<open>d\<close>, each region of \<open>d\<close> holds what the browser reads back of its content.
\<close>

lemma shown_after_reset:
  assumes stored: "documentData s = Some d" and idle: "\<not> loading s"
    and clean: "\<forall>k. localEditedRef s k \<noteq> Some True"
    and pending: "timers s = older @ [d]"
    and regions: "Nullish \<notin> set (or_nil (pages d))" "Nullish \<notin> set (or_nil (sections d))"
  shows "\<exists>st1. renderEditors readback els s = Returned st1 \<and>
           (\<forall>m i r. i < length (or_nil (region_array m d)) \<and> or_nil (region_array m d) ! i = Obj r \<longrightarrow>
              pageContentRefs (run_timers readback st1) (m, i) = Some (readback (or_empty (content r))))"
proof -
  from renderEditors_registers [of s readback els] idle stored regions
  obtain st1 where st1: "renderEditors readback els s = Returned st1"
    and flags: "localEditedRef st1 = localEditedRef s"
    and pages: "\<forall>i r. i < length (or_nil (pages d)) \<and> or_nil (pages d) ! i = Obj r \<longrightarrow>
        pageContentRefs st1 (Page, i) \<noteq> None"
    and sections: "\<forall>i r. i < length (or_nil (sections d)) \<and> or_nil (sections d) ! i = Obj r \<longrightarrow>
        pageContentRefs st1 (Section, i) \<noteq> None"
    by auto
  from renderEditors_timers [of readback els s] st1 pending have timers1: "timers st1 = older @ [d]"
    by simp
  let ?before = "fire_timers readback (length older) st1"
  have left: "timers ?before = [d]"
    by (simp add: fire_timers_timers timers1)
  have "run_timers readback st1 = state_of (fire_timer readback ?before)"
    by (simp add: run_timers_def timers1 fire_timers_last del: fire_timers.simps)
  with left have run: "run_timers readback st1 =
      state_of (populateEditorsFromDocument readback (Some d) (?before\<lparr>timers := []\<rparr>))"
    by (simp add: fire_timer_def del: populateEditorsFromDocument.simps)
  from populate_returns [OF regions, of readback "?before\<lparr>timers := []\<rparr>"]
  obtain st2 where st2: "populateEditorsFromDocument readback (Some d) (?before\<lparr>timers := []\<rparr>) = Returned st2" ..
  have "pageContentRefs (run_timers readback st1) (m, i) = Some (readback (or_empty (content r)))"
    if "i < length (or_nil (region_array m d))" "or_nil (region_array m d) ! i = Obj r" for m i r
  proof -
    from that pages sections have "pageContentRefs st1 (m, i) \<noteq> None"
      by (cases m) (simp_all add: region_array_def)
    then have "pageContentRefs ?before (m, i) \<noteq> None"
      by (rule fire_timers_keeps)
    then have "pageContentRefs (?before\<lparr>timers := []\<rparr>) (m, i) \<noteq> None"
      by simp
    moreover from clean flags have "localEditedRef (?before\<lparr>timers := []\<rparr>) (m, i) \<noteq> Some True"
      by (simp add: fire_timers_flags)
    ultimately have "pageContentRefs st2 (m, i) = Some (readback (or_empty (content r)))"
      using populate_overwrites [OF st2 that] by simp
    with run st2 show ?thesis by simp
  qed
  with st1 show ?thesis by blast
qed

lemma fetchDocument_shows:
  assumes "Nullish \<notin> set (pages_of fetched)" and "Nullish \<notin> set (sections_of fetched)"
  shows "\<exists>st1. renderEditors readback els (fetchDocument (Resolved fetched) st) = Returned st1 \<and>
           (\<forall>m i r. i < length (or_nil (region_array m (normalizeDocument fetched))) \<and>
                or_nil (region_array m (normalizeDocument fetched)) ! i = Obj r \<longrightarrow>
              pageContentRefs (run_timers readback st1) (m, i) = Some (readback (or_empty (content r))))"
proof -
  let ?d = "normalizeDocument fetched"
  let ?r = "resetRefs (Some ?d) (st\<lparr>loading := True, documentData := Some ?d\<rparr>)"
  let ?s = "fetchDocument (Resolved fetched) st"
  have s: "?s = ?r\<lparr>timers := timers ?r @ [?d], loading := False\<rparr>"
    by (simp add: fetchDocument_def fetchDocument_begin_def fetchDocument_end_def Let_def
        del: normalizeDocument.simps)
  have stored: "documentData ?s = Some ?d"
    by (simp add: s resetRefs_documentData del: normalizeDocument.simps)
  have idle: "\<not> loading ?s"
    by (simp add: s)
  have clean: "\<forall>k. localEditedRef ?s k \<noteq> Some True"
    using resetRefs_clean [of "Some ?d" "st\<lparr>loading := True, documentData := Some ?d\<rparr>"]
    by (simp add: s del: normalizeDocument.simps)
  have pending: "timers ?s = timers st @ [?d]"
    by (simp add: s resetRefs_timers del: normalizeDocument.simps)
  from assms have regions: "Nullish \<notin> set (or_nil (pages ?d))" "Nullish \<notin> set (or_nil (sections ?d))"
    by (simp_all add: normalizeDocument_pages normalizeDocument_sections js_map_normalize_Nullish
        del: normalizeDocument.simps)
  from shown_after_reset [OF stored idle clean pending regions] show ?thesis .
qed

text \<open>
  C2, the lock after a save, as the code has it. When a save is sent and the server
  accepts it, the flag of the saved key is set and its live content is what it was; the
  repopulation the save schedules and any number of further repopulations leave that
  content alone. A fetch that resolves is not held back by the flag: it clears every flag
  and the registry, and when the fetched document's entries are regions the next render
  returns and, once the pending timers have fired, every region holds what the browser
  reads back of its content in the fetched document.
\<close>

theorem post_save_lock:
  "(fst (handleSave m idx (Resolved doc) st) \<noteq> None \<longrightarrow>
      localEditedRef (state_of (snd (handleSave m idx (Resolved doc) st))) (m, idx) = Some True \<and>
      pageContentRefs (state_of (snd (handleSave m idx (Resolved doc) st))) (m, idx)
        = pageContentRefs st (m, idx) \<and>
      pageContentRefs (state_of (fire_timer readback (state_of (snd (handleSave m idx (Resolved doc) st))))) (m, idx)
        = pageContentRefs st (m, idx) \<and>
      pageContentRefs (repopulate readback docs (state_of (snd (handleSave m idx (Resolved doc) st)))) (m, idx)
        = pageContentRefs st (m, idx)) \<and>
   localEditedRef (fetchDocument (Resolved fetched) st') k \<noteq> Some True \<and>
   pageContentRefs (fetchDocument (Resolved fetched) st') k = None \<and>
   (Nullish \<notin> set (pages_of fetched) \<and> Nullish \<notin> set (sections_of fetched) \<longrightarrow>
      (\<exists>st1. renderEditors readback els (fetchDocument (Resolved fetched) st') = Returned st1 \<and>
         (\<forall>n i r. i < length (or_nil (region_array n (normalizeDocument fetched))) \<and>
              or_nil (region_array n (normalizeDocument fetched)) ! i = Obj r \<longrightarrow>
            pageContentRefs (run_timers readback st1) (n, i) = Some (readback (or_empty (content r))))))"
proof (intro conjI impI)
  let ?s = "state_of (snd (handleSave m idx (Resolved doc) st))"
  assume "fst (handleSave m idx (Resolved doc) st) \<noteq> None"
  then have flag: "localEditedRef ?s (m, idx) = Some True"
    and same: "pageContentRefs ?s = pageContentRefs st"
    by (simp_all add: handleSave_marks)
  from flag show "localEditedRef ?s (m, idx) = Some True" .
  from same show "pageContentRefs ?s (m, idx) = pageContentRefs st (m, idx)"
    by simp
  from flag same show "pageContentRefs (state_of (fire_timer readback ?s)) (m, idx) = pageContentRefs st (m, idx)"
    by (simp add: fire_timer_dirty)
  from flag same show "pageContentRefs (repopulate readback docs ?s) (m, idx) = pageContentRefs st (m, idx)"
    by (simp add: repopulate_dirty)
next
  show "localEditedRef (fetchDocument (Resolved fetched) st') k \<noteq> Some True"
    and "pageContentRefs (fetchDocument (Resolved fetched) st') k = None"
    by (simp_all add: fetchDocument_resets)
next
  assume "Nullish \<notin> set (pages_of fetched) \<and> Nullish \<notin> set (sections_of fetched)"
  then have "Nullish \<notin> set (pages_of fetched)" "Nullish \<notin> set (sections_of fetched)"
    by simp_all
  then show "\<exists>st1. renderEditors readback els (fetchDocument (Resolved fetched) st') = Returned st1 \<and>
         (\<forall>n i r. i < length (or_nil (region_array n (normalizeDocument fetched))) \<and>
              or_nil (region_array n (normalizeDocument fetched)) ! i = Obj r \<longrightarrow>
            pageContentRefs (run_timers readback st1) (n, i) = Some (readback (or_empty (content r))))"
    by (rule fetchDocument_shows)
qed

lemma saved_refs:
  "fst (handleSave Section 0 (Resolved (Some saved_doc)) (user_edit Section 0 ''<p>mine</p>'' shown)) =
     Some \<lparr>save_mode = Section, item_name = Str ''Summary'', save_content = ''<p>mine</p>''\<rparr>"
  "localEditedRef saved (Section, 0) = Some True"
  "pageContentRefs saved (Section, 0) = Some ''<p>mine</p>''"
  "timers saved = []"
  by (simp_all add: saved_def saved_doc_def eval_defs)

lemma refetched_refs:
  "pageContentRefs refetched (Section, 0) = Some ''<p>theirs</p>''"
  "localEditedRef refetched (Section, 0) = Some False"
  by (simp_all add: refetched_def saved_def saved_doc_def eval_defs)

theorem post_save_lock_witness:
  "fst (handleSave Section 0 (Resolved (Some saved_doc)) (user_edit Section 0 ''<p>mine</p>'' shown)) \<noteq> None \<and>
   localEditedRef (state_of (snd (handleSave Section 0 (Resolved (Some saved_doc))
      (user_edit Section 0 ''<p>mine</p>'' shown)))) (Section, 0) = Some True \<and>
   pageContentRefs (repopulate as_written [Some rewritten_doc, Some intro_doc] (state_of (snd
      (handleSave Section 0 (Resolved (Some saved_doc)) (user_edit Section 0 ''<p>mine</p>'' shown)))))
      (Section, 0) = Some ''<p>mine</p>'' \<and>
   pageContentRefs (fetchDocument (Resolved (Some rewritten_doc)) saved) (Section, 0) = None \<and>
   (\<exists>st1. renderEditors as_written fresh (fetchDocument (Resolved (Some rewritten_doc)) saved) = Returned st1 \<and>
      pageContentRefs (run_timers as_written st1) (Section, 0) = Some ''<p>theirs</p>'')"
proof -
  let ?st = "user_edit Section 0 ''<p>mine</p>'' shown"
  let ?d = "normalizeDocument (Some rewritten_doc)"
  note inst = post_save_lock [where m = Section and idx = 0 and doc = "Some saved_doc" and st = ?st
      and readback = as_written and docs = "[Some rewritten_doc, Some intro_doc]"
      and fetched = "Some rewritten_doc" and st' = saved and k = "(Section, 0)" and els = fresh]
  have sent: "fst (handleSave Section 0 (Resolved (Some saved_doc)) ?st) \<noteq> None"
    by (simp add: saved_refs)
  have live: "pageContentRefs ?st (Section, 0) = Some ''<p>mine</p>''"
    by (simp add: eval_defs)
  have regions: "Nullish \<notin> set (pages_of (Some rewritten_doc)) \<and>
      Nullish \<notin> set (sections_of (Some rewritten_doc))"
    by (simp add: rewritten_doc_def)
  from inst sent live have first: "localEditedRef (state_of (snd (handleSave Section 0 (Resolved (Some saved_doc)) ?st)))
        (Section, 0) = Some True \<and>
      pageContentRefs (repopulate as_written [Some rewritten_doc, Some intro_doc]
        (state_of (snd (handleSave Section 0 (Resolved (Some saved_doc)) ?st)))) (Section, 0) = Some ''<p>mine</p>'' \<and>
      pageContentRefs (fetchDocument (Resolved (Some rewritten_doc)) saved) (Section, 0) = None"
    by simp
  from inst regions obtain st1
    where run: "renderEditors as_written fresh (fetchDocument (Resolved (Some rewritten_doc)) saved) = Returned st1"
      and all: "\<forall>n i r. i < length (or_nil (region_array n ?d)) \<and> or_nil (region_array n ?d) ! i = Obj r \<longrightarrow>
        pageContentRefs (run_timers as_written st1) (n, i) = Some (as_written (or_empty (content r)))"
    by blast
  have "0 < length (or_nil (region_array Section ?d)) \<and>
      or_nil (region_array Section ?d) ! 0 = Obj ((region_of ''Summary'' ''<p>theirs</p>'')\<lparr>type := Str ''text''\<rparr>)"
    by (simp add: region_array_def rewritten_doc_def region_of_def Let_def)
  with all have "pageContentRefs (run_timers as_written st1) (Section, 0) =
      Some (as_written (or_empty (content ((region_of ''Summary'' ''<p>theirs</p>'')\<lparr>type := Str ''text''\<rparr>))))"
    by blast
  then have "pageContentRefs (run_timers as_written st1) (Section, 0) = Some ''<p>theirs</p>''"
    by (simp add: region_of_def as_written_def)
  with run sent first show ?thesis
    by blast
qed

text \<open>
  The claim as the specification states it fails: the section is saved, its flag is set
  and it shows the saved markup; after the next fetch it shows what the server sent.
\<close>

theorem post_save_lock_counterexample:
  "localEditedRef saved (Section, 0) = Some True \<and>
   pageContentRefs saved (Section, 0) = Some ''<p>mine</p>'' \<and>
   pageContentRefs refetched (Section, 0) = Some ''<p>theirs</p>'' \<and>
   pageContentRefs refetched (Section, 0) \<noteq> pageContentRefs saved (Section, 0)"
  by (simp add: saved_refs refetched_refs)

section \<open>Search\<close>




















section \<open>Regenerating the whole document twice\<close>

text \<open>
  C9 asks that no second whole-document regeneration can start while one is pending. In
  the code it can: after one click on the button the viewer is loading, the preview button
  is disabled but the regenerate button is not, a second click is an event of the system,
  and then two requests are in flight.
\<close>

theorem regenerate_overlaps:
  "regen_step shown (handleRegenerateDocument_begin shown) \<and>
   loading (handleRegenerateDocument_begin shown) \<and>
   regenerating (handleRegenerateDocument_begin shown) = 1 \<and>
   preview_button_disabled (handleRegenerateDocument_begin shown) \<and>
   \<not> regenerate_button_disabled (handleRegenerateDocument_begin shown) \<and>
   regen_step (handleRegenerateDocument_begin shown)
     (handleRegenerateDocument_begin (handleRegenerateDocument_begin shown)) \<and>
   regenerating (handleRegenerateDocument_begin (handleRegenerateDocument_begin shown)) = 2"
proof -
  let ?one = "handleRegenerateDocument_begin shown"
  have enabled: "\<not> regenerate_button_disabled st" for st
    by (simp add: regenerate_button_disabled_def)
  have click: "regen_step st (handleRegenerateDocument_begin st)" for st
    by (rule regen_step.click) (rule enabled)
  have idle: "regenerating shown = 0"
    by (simp add: eval_defs)
  then have counts: "regenerating ?one = 1" "regenerating (handleRegenerateDocument_begin ?one) = 2"
    by (simp_all add: handleRegenerateDocument_begin_def)
  have busy: "loading ?one" "preview_button_disabled ?one"
    by (simp_all add: handleRegenerateDocument_begin_def preview_button_disabled_def)
  from click [of shown] click [of ?one] counts busy enabled [of ?one] show ?thesis
    by blast
qed

end
